(* ===== verification/Prelude.thy ===== *)
theory Prelude
  imports Main "HOL-Library.Word" "HOL-Library.Monad_Syntax"
begin

unbundle bit_operations_syntax

text \<open>
  The shared base of the development: the machine types of the Rust sources, the checked
  arithmetic of the language, the outcome of a fallible function, and the generic lemmas on
  words, options and lists that the component theories use.

  Rust arithmetic is modelled in the checked profile (the one \<^verbatim>\<open>cargo test\<close> and debug
  builds use): an overflow, a division by zero, a failed \<^verbatim>\<open>assert!\<close> or
  \<^verbatim>\<open>debug_assert!\<close>, and \<^verbatim>\<open>unwrap\<close> of an empty value are panics. A function
  that can only panic returns an option (\<^verbatim>\<open>None\<close> is the panic); a function that returns a
  \<^verbatim>\<open>Result\<close> returns an \<^verbatim>\<open>outcome\<close>. Wherever the model does not panic, the release
  profile of the kernel (which switches the overflow checks off) computes the same value.
\<close>

section \<open>Machine types\<close>

type_synonym u8 = "8 word"
type_synonym u32 = "32 word"
type_synonym u64 = "64 word"
type_synonym usize = "64 word"
type_synonym i64 = "64 word"

section \<open>Collections of facts\<close>

named_theorems checked_simps \<open>when a checked operation returns, and what\<close>
named_theorems outcome_simps \<open>the sequencing of fallible operations\<close>

section \<open>Unsigned checked arithmetic\<close>

definition uadd :: "'a::len word \<Rightarrow> 'a word \<Rightarrow> 'a word option" where
  "uadd a b = (if unat a + unat b < 2 ^ LENGTH('a) then Some (a + b) else None)"

definition usub :: "'a::len word \<Rightarrow> 'a word \<Rightarrow> 'a word option" where
  "usub a b = (if b \<le> a then Some (a - b) else None)"

definition umul :: "'a::len word \<Rightarrow> 'a word \<Rightarrow> 'a word option" where
  "umul a b = (if unat a * unat b < 2 ^ LENGTH('a) then Some (a * b) else None)"

definition udiv :: "'a::len word \<Rightarrow> 'a word \<Rightarrow> 'a word option" where
  "udiv a b = (if b = 0 then None else Some (a div b))"

definition urem :: "'a::len word \<Rightarrow> 'a word \<Rightarrow> 'a word option" where
  "urem a b = (if b = 0 then None else Some (a mod b))"

text \<open>\<^verbatim>\<open>usize::div_ceil\<close> of the core library: the quotient, plus one when there is a remainder.\<close>

definition udiv_ceil :: "'a::len word \<Rightarrow> 'a word \<Rightarrow> 'a word option" where
  "udiv_ceil a b =
     (if b = 0 then None
      else if a mod b \<noteq> 0 then uadd (a div b) 1 else Some (a div b))"

text \<open>Shifts panic when the amount is not below the width.\<close>

definition ushl :: "'a::len word \<Rightarrow> usize \<Rightarrow> 'a word option" where
  "ushl a n = (if unat n < LENGTH('a) then Some (push_bit (unat n) a) else None)"

definition ushr :: "'a::len word \<Rightarrow> usize \<Rightarrow> 'a word option" where
  "ushr a n = (if unat n < LENGTH('a) then Some (drop_bit (unat n) a) else None)"

text \<open>Shifts by a constant below the width.\<close>

abbreviation shl :: "'a::len word \<Rightarrow> nat \<Rightarrow> 'a word" where
  "shl a n \<equiv> push_bit n a"

abbreviation shr :: "'a::len word \<Rightarrow> nat \<Rightarrow> 'a word" where
  "shr a n \<equiv> drop_bit n a"

definition assert_that :: "bool \<Rightarrow> unit option" where
  "assert_that b = (if b then Some () else None)"

lemma uadd_eq_Some [checked_simps]:
  "uadd a b = Some c \<longleftrightarrow> unat a + unat b < 2 ^ LENGTH('a) \<and> c = a + b"
  for a b c :: "'a::len word"
  by (auto simp: uadd_def)

lemma uadd_eq_None [checked_simps]:
  "uadd a b = None \<longleftrightarrow> 2 ^ LENGTH('a) \<le> unat a + unat b"
  for a b :: "'a::len word"
  by (auto simp: uadd_def)

lemma usub_eq_Some [checked_simps]: "usub a b = Some c \<longleftrightarrow> b \<le> a \<and> c = a - b"
  by (auto simp: usub_def)

lemma usub_eq_None [checked_simps]: "usub a b = None \<longleftrightarrow> a < b"
  by (auto simp: usub_def)

lemma umul_eq_Some [checked_simps]:
  "umul a b = Some c \<longleftrightarrow> unat a * unat b < 2 ^ LENGTH('a) \<and> c = a * b"
  for a b c :: "'a::len word"
  by (auto simp: umul_def)

lemma udiv_eq_Some [checked_simps]: "udiv a b = Some c \<longleftrightarrow> b \<noteq> 0 \<and> c = a div b"
  by (auto simp: udiv_def)

lemma urem_eq_Some [checked_simps]: "urem a b = Some c \<longleftrightarrow> b \<noteq> 0 \<and> c = a mod b"
  by (auto simp: urem_def)

lemma assert_that_eq_Some [checked_simps]: "assert_that b = Some u \<longleftrightarrow> b"
  by (simp add: assert_that_def)

lemma assert_that_simps [simp]:
  "assert_that True = Some ()" "assert_that False = None"
  by (simp_all add: assert_that_def)

lemma unat_uadd: "uadd a b = Some c \<Longrightarrow> unat c = unat a + unat b"
  by (simp add: uadd_eq_Some unat_add_lem)

lemma unat_usub: "usub a b = Some c \<Longrightarrow> unat c = unat a - unat b"
  by (auto simp: usub_eq_Some unat_sub word_le_nat_alt)

lemma unat_umul: "umul a b = Some c \<Longrightarrow> unat c = unat a * unat b"
  by (simp add: umul_eq_Some unat_mult_lem)

section \<open>Signed integers\<close>

text \<open>An i64 is a 64-bit word read with \<^verbatim>\<open>sint\<close>; a checked operation computes on the integers
  and panics when the result leaves the range.\<close>

definition in_i64 :: "int \<Rightarrow> bool" where
  "in_i64 x \<longleftrightarrow> - (2 ^ 63) \<le> x \<and> x < 2 ^ 63"

definition i64_of :: "int \<Rightarrow> i64" where
  "i64_of x = word_of_int x"

definition chk_i64 :: "int \<Rightarrow> i64 option" where
  "chk_i64 x = (if in_i64 x then Some (i64_of x) else None)"

lemma sint_i64_of [simp]: "in_i64 x \<Longrightarrow> sint (i64_of x) = x"
  by (simp add: in_i64_def i64_of_def signed_of_int signed_take_bit_int_eq_self)

lemma in_i64_sint [simp]: "in_i64 (sint (x :: i64))"
  using sint_range_size [of x] by (simp add: in_i64_def word_size)

lemma i64_of_sint [simp]: "i64_of (sint x) = x"
  by (simp add: i64_of_def)

lemma chk_i64_eq_Some [checked_simps]: "chk_i64 x = Some w \<longleftrightarrow> in_i64 x \<and> w = i64_of x"
  by (auto simp: chk_i64_def)

lemma chk_i64_eq_None [checked_simps]: "chk_i64 x = None \<longleftrightarrow> \<not> in_i64 x"
  by (auto simp: chk_i64_def)

lemma sint_eq_iff_i64: "sint (x :: i64) = sint y \<longleftrightarrow> x = y"
  by (metis i64_of_sint)

text \<open>Truncating division and remainder, Rust's \<^verbatim>\<open>/\<close> and \<^verbatim>\<open>%\<close> on signed integers
  (\<^verbatim>\<open>div_euclid\<close> and \<^verbatim>\<open>rem_euclid\<close> by a positive divisor are HOL's \<^verbatim>\<open>div\<close> and
  \<^verbatim>\<open>mod\<close>).\<close>

definition trunc_div :: "int \<Rightarrow> int \<Rightarrow> int" where
  "trunc_div a b = sgn a * sgn b * (\<bar>a\<bar> div \<bar>b\<bar>)"

definition trunc_rem :: "int \<Rightarrow> int \<Rightarrow> int" where
  "trunc_rem a b = a - trunc_div a b * b"

lemma trunc_div_nonneg: "0 \<le> a \<Longrightarrow> 0 < b \<Longrightarrow> trunc_div a b = a div b"
  by (cases "a = 0") (simp_all add: trunc_div_def)

lemma trunc_rem_nonneg: "0 \<le> a \<Longrightarrow> 0 < b \<Longrightarrow> trunc_rem a b = a mod b"
  by (simp add: trunc_rem_def trunc_div_nonneg minus_div_mult_eq_mod)

lemma trunc_div_rem: "trunc_div a b * b + trunc_rem a b = a"
  by (simp add: trunc_rem_def)

section \<open>Outcomes of fallible functions\<close>

text \<open>A Rust function returning \<^verbatim>\<open>Result\<close> either returns a value, returns an error, or panics.\<close>

datatype ('a, 'e) outcome = Ok 'a | Err 'e | Panic

primrec obind :: "('a, 'e) outcome \<Rightarrow> ('a \<Rightarrow> ('b, 'e) outcome) \<Rightarrow> ('b, 'e) outcome" where
  "obind (Ok a) f = f a"
| "obind (Err e) f = Err e"
| "obind Panic f = Panic"

text \<open>A panicking computation used inside a fallible one.\<close>

primrec of_opt :: "'a option \<Rightarrow> ('a, 'e) outcome" where
  "of_opt (Some a) = Ok a"
| "of_opt None = Panic"

primrec map_err :: "('e \<Rightarrow> ('f, 'f) outcome) \<Rightarrow> ('a, 'e) outcome \<Rightarrow> ('a, 'f) outcome" where
  "map_err g (Ok a) = Ok a"
| "map_err g (Err e) = (case g e of Ok f \<Rightarrow> Err f | Err f \<Rightarrow> Err f | Panic \<Rightarrow> Panic)"
| "map_err g Panic = Panic"

text \<open>\<^verbatim>\<open>Result::unwrap\<close>: the value, or a panic.\<close>

primrec unwrap :: "('a, 'e) outcome \<Rightarrow> 'a option" where
  "unwrap (Ok a) = Some a"
| "unwrap (Err e) = None"
| "unwrap Panic = None"

text \<open>Sequencing of operations that keep their state when they fail.\<close>

fun sbind ::
  "('a, 'e) outcome \<times> 's \<Rightarrow> ('a \<Rightarrow> 's \<Rightarrow> ('b, 'e) outcome \<times> 's) \<Rightarrow> ('b, 'e) outcome \<times> 's" where
  "sbind (Ok a, s) f = f a s"
| "sbind (Err e, s) f = (Err e, s)"
| "sbind (Panic, s) f = (Panic, s)"

lemma obind_eq_Ok [outcome_simps]:
  "obind x f = Ok b \<longleftrightarrow> (\<exists>a. x = Ok a \<and> f a = Ok b)"
  by (cases x) simp_all

lemma obind_eq_Err [outcome_simps]:
  "obind x f = Err e \<longleftrightarrow> x = Err e \<or> (\<exists>a. x = Ok a \<and> f a = Err e)"
  by (cases x) simp_all

lemma of_opt_eq_Ok [outcome_simps]: "of_opt x = Ok a \<longleftrightarrow> x = Some a"
  by (cases x) simp_all

lemma of_opt_neq_Err [simp]: "of_opt x \<noteq> Err e"
  by (cases x) simp_all

lemma unwrap_eq_Some [outcome_simps]: "unwrap x = Some a \<longleftrightarrow> x = Ok a"
  by (cases x) simp_all

lemma obind_assoc: "obind (obind x f) g = obind x (\<lambda>a. obind (f a) g)"
  by (cases x) simp_all

lemma obind_cong [fundef_cong]:
  "x = y \<Longrightarrow> (\<And>a. y = Ok a \<Longrightarrow> f a = g a) \<Longrightarrow> obind x f = obind y g"
  by (cases y) simp_all

lemma sbind_cong: "(\<And>a s. f a s = g a s) \<Longrightarrow> sbind x f = sbind x g"
  by (cases x; cases "fst x") simp_all

section \<open>Words\<close>

lemma word_and_not_mask_eq: "(a :: 'a::len word) AND NOT (2 ^ n - 1) = a - a mod 2 ^ n"
proof -
  have "a AND NOT (mask n) = push_bit n (drop_bit n a)"
    by (rule bit_word_eqI) (auto simp: bit_simps)
  then show ?thesis
    using bits_ident [of n a]
    by (simp add: mask_eq_exp_minus_1 take_bit_eq_mod algebra_simps)
qed

lemma unat_exp: "n < LENGTH('a) \<Longrightarrow> unat (2 ^ n :: 'a::len word) = 2 ^ n"
  by transfer simp

lemma unat_mod_exp: "n < LENGTH('a) \<Longrightarrow> unat (a mod 2 ^ n :: 'a::len word) = unat a mod 2 ^ n"
  by (simp add: unat_mod_distrib unat_exp)

lemma unat_and_not_mask:
  "n < LENGTH('a) \<Longrightarrow> unat ((a :: 'a::len word) AND NOT (2 ^ n - 1)) = unat a - unat a mod 2 ^ n"
  by (simp add: word_and_not_mask_eq unat_sub word_le_nat_alt unat_mod_exp)

lemma unat_lt_u64: "unat (a :: 64 word) < 18446744073709551616"
  using unsigned_less [of a] by simp

section \<open>Natural numbers\<close>

lemma div_ceil_nat:
  "0 < k \<Longrightarrow> (n + (k - 1)) div k = n div k + (if n mod k = 0 then 0 else 1)" for n k :: nat
proof -
  assume k: "0 < k"
  have "(n + (k - 1)) div k = (k * (n div k) + (n mod k + (k - 1))) div k"
    by (simp add: add.assoc [symmetric])
  also have "\<dots> = n div k + (n mod k + (k - 1)) div k"
    using k by (metis div_mult_self4 less_irrefl)
  also have "(n mod k + (k - 1)) div k = (if n mod k = 0 then 0 else 1)"
  proof (cases "n mod k = 0")
    case False
    have "n mod k < k" using k by simp
    with False show ?thesis by (auto intro!: div_nat_eqI)
  qed (use k in simp)
  finally show ?thesis .
qed

end
