(* ===== verification/Address.thy ===== *)
theory Address
  imports Prelude
begin

text \<open>
  The address crate (\<^verbatim>\<open>src/libraries/address\<close>) over the operator macros of the
  abstractions crate. \<^verbatim>\<open>VirtualAddress\<close>, \<^verbatim>\<open>PhysicalAddress\<close>,
  \<^verbatim>\<open>VirtualPageNum\<close> and \<^verbatim>\<open>PhysicalPageNum\<close> are transparent wrappers of
  \<^verbatim>\<open>usize\<close>, so \<^verbatim>\<open>as_usize\<close> and \<^verbatim>\<open>from_usize\<close> are the identity here and an
  address or page number is a 64-bit word. The lemmas characterise alignment, the conversions
  between addresses and page numbers, the half-open ranges and their iterators.
\<close>

section \<open>Operators\<close>

definition PAGE_SIZE :: usize where
  "PAGE_SIZE = 4096"

definition addr_add :: "usize \<Rightarrow> usize \<Rightarrow> usize option" where
  "addr_add self rhs = uadd self rhs"

definition addr_sub :: "usize \<Rightarrow> usize \<Rightarrow> usize option" where
  "addr_sub self rhs = usub self rhs"

definition addr_bitand :: "usize \<Rightarrow> usize \<Rightarrow> usize" where
  "addr_bitand self rhs = self AND rhs"

definition addr_bitor :: "usize \<Rightarrow> usize \<Rightarrow> usize" where
  "addr_bitor self rhs = self OR rhs"

definition addr_bitxor :: "usize \<Rightarrow> usize \<Rightarrow> usize" where
  "addr_bitxor self rhs = self XOR rhs"

definition addr_shl :: "usize \<Rightarrow> usize \<Rightarrow> usize option" where
  "addr_shl self rhs = ushl self rhs"

definition addr_shr :: "usize \<Rightarrow> usize \<Rightarrow> usize option" where
  "addr_shr self rhs = ushr self rhs"

section \<open>Addresses\<close>

definition is_null :: "usize \<Rightarrow> bool" where
  "is_null self \<longleftrightarrow> self = 0"

definition null_addr :: usize where
  "null_addr = 0"

definition to_floor_page_num :: "usize \<Rightarrow> usize" where
  "to_floor_page_num self = self div PAGE_SIZE"

definition to_ceil_page_num :: "usize \<Rightarrow> usize option" where
  "to_ceil_page_num self = udiv_ceil self PAGE_SIZE"

text \<open>\<^verbatim>\<open>usize::is_multiple_of\<close>: only zero is a multiple of zero.\<close>

definition is_aligned :: "usize \<Rightarrow> usize \<Rightarrow> bool" where
  "is_aligned self align = (if align = 0 then self = 0 else self mod align = 0)"

definition is_page_aligned :: "usize \<Rightarrow> bool" where
  "is_page_aligned self = is_aligned self PAGE_SIZE"

text \<open>\<^verbatim>\<open>usize::is_power_of_two\<close>: exactly one bit is set.\<close>

definition is_power_of_two :: "usize \<Rightarrow> bool" where
  "is_power_of_two a \<longleftrightarrow> a \<noteq> 0 \<and> a AND (a - 1) = 0"

definition align_up :: "usize \<Rightarrow> usize \<Rightarrow> usize option" where
  "align_up self align = do {
     _ \<leftarrow> assert_that (is_power_of_two align);
     mask \<leftarrow> usub align 1;
     s \<leftarrow> uadd self align;
     Some (s AND NOT mask)
   }"

definition align_down :: "usize \<Rightarrow> usize \<Rightarrow> usize option" where
  "align_down self align = do {
     _ \<leftarrow> assert_that (is_power_of_two align);
     mask \<leftarrow> usub align 1;
     Some (self AND NOT mask)
   }"

definition page_down :: "usize \<Rightarrow> usize option" where
  "page_down self = align_down self PAGE_SIZE"

definition page_up :: "usize \<Rightarrow> usize option" where
  "page_up self = align_up self PAGE_SIZE"

definition add_by :: "usize \<Rightarrow> usize \<Rightarrow> usize option" where
  "add_by self offset = uadd self offset"

definition minus_by :: "usize \<Rightarrow> usize \<Rightarrow> usize option" where
  "minus_by self offset = usub self offset"

text \<open>\<^verbatim>\<open>add_n::<T>\<close> and its relatives: \<^verbatim>\<open>size_of::<T>()\<close> is the argument sz.\<close>

definition add_n :: "usize \<Rightarrow> usize \<Rightarrow> usize \<Rightarrow> usize option" where
  "add_n sz self n = do { d \<leftarrow> umul sz n; add_by self d }"

definition minus_n :: "usize \<Rightarrow> usize \<Rightarrow> usize \<Rightarrow> usize option" where
  "minus_n sz self n = do { d \<leftarrow> umul sz n; minus_by self d }"

definition off_by :: "usize \<Rightarrow> i64 \<Rightarrow> usize option" where
  "off_by self offset = chk_i64 (sint self + sint offset)"

definition in_page_offset :: "usize \<Rightarrow> usize" where
  "in_page_offset self = self mod PAGE_SIZE"

definition diff :: "usize \<Rightarrow> usize \<Rightarrow> i64 option" where
  "diff self other = chk_i64 (sint self - sint other)"

section \<open>Page numbers\<close>

definition from_addr_floor :: "usize \<Rightarrow> usize option" where
  "from_addr_floor addr = do { a \<leftarrow> align_down addr PAGE_SIZE; Some (a div PAGE_SIZE) }"

definition from_addr_ceil :: "usize \<Rightarrow> usize option" where
  "from_addr_ceil addr = do { a \<leftarrow> align_up addr PAGE_SIZE; Some (a div PAGE_SIZE) }"

definition start_addr :: "usize \<Rightarrow> usize option" where
  "start_addr self = umul self PAGE_SIZE"

definition end_addr :: "usize \<Rightarrow> usize option" where
  "end_addr self = do { n \<leftarrow> uadd self 1; umul n PAGE_SIZE }"

definition at_offset_of_start :: "usize \<Rightarrow> usize \<Rightarrow> usize option" where
  "at_offset_of_start self offset = do { a \<leftarrow> umul self PAGE_SIZE; uadd a offset }"

definition at_offset_of_end :: "usize \<Rightarrow> usize \<Rightarrow> usize option" where
  "at_offset_of_end self offset = do {
     n \<leftarrow> uadd self 1; a \<leftarrow> umul n PAGE_SIZE; usub a offset
   }"

definition start_offset_of_addr :: "usize \<Rightarrow> usize \<Rightarrow> i64 option" where
  "start_offset_of_addr self addr = do { a \<leftarrow> start_addr self; diff addr a }"

definition end_offset_of_addr :: "usize \<Rightarrow> usize \<Rightarrow> i64 option" where
  "end_offset_of_addr self addr = do { a \<leftarrow> end_addr self; diff addr a }"

definition diff_page_count :: "usize \<Rightarrow> usize \<Rightarrow> i64 option" where
  "diff_page_count self other = chk_i64 (sint self - sint other)"

definition VIRT_PAGE_NUM_WIDTH :: nat where
  "VIRT_PAGE_NUM_WIDTH = 9"

definition VIRT_PAGE_NUM_MASK :: usize where
  "VIRT_PAGE_NUM_MASK = push_bit VIRT_PAGE_NUM_WIDTH 1 - 1"

text \<open>The loop of \<^verbatim>\<open>page_table_indices\<close> runs over i = 2, 1, 0 and writes \<^verbatim>\<open>idx[i]\<close>.\<close>

fun page_table_indices_loop :: "nat \<Rightarrow> usize \<Rightarrow> usize list \<Rightarrow> usize list" where
  "page_table_indices_loop 0 vpn idx = idx"
| "page_table_indices_loop (Suc i) vpn idx =
     page_table_indices_loop i (drop_bit VIRT_PAGE_NUM_WIDTH vpn) (idx[i := vpn AND VIRT_PAGE_NUM_MASK])"

definition page_table_indices :: "usize \<Rightarrow> usize list" where
  "page_table_indices self = page_table_indices_loop 3 self [0, 0, 0]"

section \<open>Address ranges\<close>

record addr_range =
  ar_start :: usize
  ar_end :: usize

definition ar_from_start_len :: "usize \<Rightarrow> usize \<Rightarrow> addr_range option" where
  "ar_from_start_len start len = do {
     e \<leftarrow> uadd start len; Some \<lparr>ar_start = start, ar_end = e\<rparr>
   }"

definition ar_from_start_end :: "usize \<Rightarrow> usize \<Rightarrow> addr_range" where
  "ar_from_start_end s e = \<lparr>ar_start = s, ar_end = e\<rparr>"

definition ar_start_page :: "addr_range \<Rightarrow> usize option" where
  "ar_start_page self = page_down (ar_start self)"

definition ar_end_page :: "addr_range \<Rightarrow> usize option" where
  "ar_end_page self = page_down (ar_end self)"

definition ar_len :: "addr_range \<Rightarrow> usize option" where
  "ar_len self = do {
     d \<leftarrow> diff (ar_end self) (ar_start self);
     _ \<leftarrow> assert_that (0 \<le> sint d);
     Some d
   }"

definition ar_is_empty :: "addr_range \<Rightarrow> bool" where
  "ar_is_empty self \<longleftrightarrow> ar_start self = ar_end self"

definition ar_contains :: "addr_range \<Rightarrow> usize \<Rightarrow> bool" where
  "ar_contains self addr \<longleftrightarrow> ar_start self \<le> addr \<and> addr < ar_end self"

definition ar_contains_range :: "addr_range \<Rightarrow> addr_range \<Rightarrow> bool" where
  "ar_contains_range self other \<longleftrightarrow>
     ar_start self \<le> ar_start other \<and> ar_end other \<le> ar_end self"

definition ar_contained_by :: "addr_range \<Rightarrow> addr_range \<Rightarrow> bool" where
  "ar_contained_by self other = ar_contains_range other self"

definition ar_intersects :: "addr_range \<Rightarrow> addr_range \<Rightarrow> bool" where
  "ar_intersects self other \<longleftrightarrow>
     ar_start self < ar_end other \<and> ar_start other < ar_end self"

definition ar_intersection :: "addr_range \<Rightarrow> addr_range \<Rightarrow> addr_range option" where
  "ar_intersection self other =
     (if ar_intersects self other
      then Some \<lparr>ar_start = max (ar_start self) (ar_start other),
                 ar_end = min (ar_end self) (ar_end other)\<rparr>
      else None)"

definition ar_union :: "addr_range \<Rightarrow> addr_range \<Rightarrow> addr_range" where
  "ar_union self other =
     \<lparr>ar_start = min (ar_start self) (ar_start other),
      ar_end = max (ar_end self) (ar_end other)\<rparr>"

definition ar_off_by :: "addr_range \<Rightarrow> i64 \<Rightarrow> addr_range option" where
  "ar_off_by self offset = do {
     s \<leftarrow> off_by (ar_start self) offset;
     e \<leftarrow> off_by (ar_end self) offset;
     Some \<lparr>ar_start = s, ar_end = e\<rparr>
   }"

section \<open>Page number ranges\<close>

record page_range =
  pr_start :: usize
  pr_end :: usize

definition pr_from_start_count :: "usize \<Rightarrow> usize \<Rightarrow> page_range option" where
  "pr_from_start_count start count = do {
     e \<leftarrow> uadd start count; Some \<lparr>pr_start = start, pr_end = e\<rparr>
   }"

definition pr_from_start_end :: "usize \<Rightarrow> usize \<Rightarrow> page_range option" where
  "pr_from_start_end s e = do {
     _ \<leftarrow> assert_that (s \<le> e); Some \<lparr>pr_start = s, pr_end = e\<rparr>
   }"

definition pr_from_single :: "usize \<Rightarrow> page_range option" where
  "pr_from_single num = do {
     e \<leftarrow> uadd num 1; Some \<lparr>pr_start = num, pr_end = e\<rparr>
   }"

definition pr_page_count :: "page_range \<Rightarrow> usize option" where
  "pr_page_count self = do {
     c \<leftarrow> diff_page_count (pr_end self) (pr_start self);
     _ \<leftarrow> assert_that (0 \<le> sint c);
     Some c
   }"

definition pr_is_empty :: "page_range \<Rightarrow> bool" where
  "pr_is_empty self \<longleftrightarrow> pr_start self = pr_end self"

definition pr_contains :: "page_range \<Rightarrow> usize \<Rightarrow> bool" where
  "pr_contains self num \<longleftrightarrow> pr_start self \<le> num \<and> num < pr_end self"

definition pr_contains_range :: "page_range \<Rightarrow> page_range \<Rightarrow> bool" where
  "pr_contains_range self other \<longleftrightarrow>
     pr_start self \<le> pr_start other \<and> pr_end other \<le> pr_end self"

definition pr_contained_by :: "page_range \<Rightarrow> page_range \<Rightarrow> bool" where
  "pr_contained_by self other = pr_contains_range other self"

section \<open>Iterators\<close>

text \<open>\<^verbatim>\<open>next\<close> of the range iterators: the state is the end of the range and the current item.
  The step by one cannot overflow, because the current item is below the end.\<close>

definition iter_next :: "usize \<Rightarrow> usize \<Rightarrow> usize option \<times> usize" where
  "iter_next rend current = (if current < rend then (Some current, current + 1) else (None, current))"

lemma unat_sub_Suc_less: "c < e \<Longrightarrow> unat (e - (c + 1)) < unat (e - c)"
  for c e :: usize
  by unat_arith

text \<open>A \<^verbatim>\<open>for\<close> loop over the range: the items \<^verbatim>\<open>next\<close> yields until it returns none.\<close>

function iter_items :: "usize \<Rightarrow> usize \<Rightarrow> usize list" where
  "iter_items rend current =
     (case iter_next rend current of (None, _) \<Rightarrow> [] | (Some x, c) \<Rightarrow> x # iter_items rend c)"
  by pat_completeness auto
termination
  by (relation "measure (\<lambda>(rend, current). unat (rend - current))")
     (auto simp: iter_next_def unat_sub_Suc_less split: if_splits)

declare iter_items.simps [simp del]

definition ar_iter :: "addr_range \<Rightarrow> usize list" where
  "ar_iter self = iter_items (ar_end self) (ar_start self)"

definition pr_iter :: "page_range \<Rightarrow> usize list" where
  "pr_iter self = iter_items (pr_end self) (pr_start self)"

section \<open>Alignment\<close>

lemma PAGE_SIZE_exp: "PAGE_SIZE = 2 ^ 12"
  by (simp add: PAGE_SIZE_def)

lemma unat_PAGE_SIZE [simp]: "unat PAGE_SIZE = 4096"
  by (simp add: PAGE_SIZE_def)

lemma PAGE_SIZE_neq_0 [simp]: "PAGE_SIZE \<noteq> 0"
  by (simp add: PAGE_SIZE_def)

lemma is_power_of_two_exp: "n < 64 \<Longrightarrow> is_power_of_two (2 ^ n)"
proof -
  assume n: "n < 64"
  have "(2 :: usize) ^ n AND mask n = 0"
    by (rule bit_word_eqI) (auto simp: bit_simps)
  moreover have "(2 :: usize) ^ n \<noteq> 0"
    using n unat_exp [where 'a = 64, of n] by (auto dest: arg_cong [where f = unat])
  ultimately show ?thesis
    by (simp add: is_power_of_two_def mask_eq_exp_minus_1)
qed

lemma is_power_of_two_PAGE_SIZE [simp]: "is_power_of_two PAGE_SIZE"
  unfolding PAGE_SIZE_exp by (rule is_power_of_two_exp) simp

lemma one_le_exp_word: "n < 64 \<Longrightarrow> (1 :: usize) \<le> 2 ^ n"
  using unat_exp [where 'a = 64, of n] by (simp add: word_le_nat_alt)

lemma align_down_exp: "n < 64 \<Longrightarrow> align_down a (2 ^ n) = Some (a - a mod 2 ^ n)"
  by (simp add: align_down_def is_power_of_two_exp usub_def one_le_exp_word word_and_not_mask_eq)

lemma align_up_exp:
  "n < 64 \<Longrightarrow> unat a + 2 ^ n < 2 ^ 64 \<Longrightarrow>
   align_up a (2 ^ n) = Some ((a + 2 ^ n) - (a + 2 ^ n) mod 2 ^ n)"
  by (simp add: align_up_def is_power_of_two_exp usub_def uadd_def one_le_exp_word
      word_and_not_mask_eq unat_exp)

lemma is_aligned_exp: "n < 64 \<Longrightarrow> is_aligned a (2 ^ n) \<longleftrightarrow> unat a mod 2 ^ n = 0"
  by (simp add: is_aligned_def unat_mod_exp [symmetric] unat_eq_0) 

lemma is_page_aligned_unat: "is_page_aligned a \<longleftrightarrow> unat a mod 4096 = 0"
  using is_aligned_exp [of 12 a] by (simp add: is_page_aligned_def PAGE_SIZE_exp)

lemma page_down_eq: "page_down a = Some (a - a mod PAGE_SIZE)"
  using align_down_exp [of 12 a] by (simp add: page_down_def PAGE_SIZE_exp)

lemma unat_align_down:
  "n < 64 \<Longrightarrow> align_down a (2 ^ n) = Some b \<Longrightarrow> unat b = unat a - unat a mod 2 ^ n"
  using unat_and_not_mask [of n a] by (simp add: align_down_exp word_and_not_mask_eq)

lemma unat_page_down: "page_down a = Some b \<Longrightarrow> unat b = unat a - unat a mod 4096"
  using unat_align_down [of 12 a b] by (simp add: page_down_def PAGE_SIZE_exp)

lemma unat_align_up:
  assumes "n < 64" "align_up a (2 ^ n) = Some b"
  shows "unat b = unat a - unat a mod 2 ^ n + 2 ^ n"
proof -
  from assms have lt: "unat a + 2 ^ n < 2 ^ 64"
    by (auto simp: align_up_def checked_simps unat_exp bind_eq_Some_conv)
  have u: "unat (a + 2 ^ n) = unat a + 2 ^ n"
    using lt assms(1) by (simp add: unat_add_lem [THEN iffD1] unat_exp)
  have "b = (a + 2 ^ n) AND NOT (2 ^ n - 1)"
    using assms lt by (simp add: align_up_exp word_and_not_mask_eq)
  then have "unat b = unat (a + 2 ^ n) - unat (a + 2 ^ n) mod 2 ^ n"
    using assms(1) by (simp add: unat_and_not_mask)
  also have "\<dots> = unat a - unat a mod 2 ^ n + 2 ^ n"
    by (simp add: u)
  finally show ?thesis .
qed

section \<open>Iteration\<close>

lemma iter_items_less: "c < e \<Longrightarrow> iter_items e c = c # iter_items e (c + 1)"
  by (subst iter_items.simps) (simp add: iter_next_def)

lemma iter_items_ge: "\<not> c < e \<Longrightarrow> iter_items e c = []"
  by (subst iter_items.simps) (simp add: iter_next_def)

lemma unat_Suc_less: "c < e \<Longrightarrow> unat (c + 1) = Suc (unat c)" for c e :: usize
  by unat_arith

lemma iter_items_map: "map unat (iter_items e c) = [unat c..<unat e]"
proof (induction e c rule: iter_items.induct)
  case (1 e c)
  show ?case
  proof (cases "c < e")
    case True
    then have "map unat (iter_items e (c + 1)) = [unat (c + 1)..<unat e]"
      using 1 by (simp add: iter_next_def)
    with True show ?thesis
      by (simp add: iter_items_less unat_Suc_less upt_conv_Cons word_less_nat_alt)
  next
    case False
    then show ?thesis by (simp add: iter_items_ge word_less_nat_alt)
  qed
qed

lemma length_iter_items: "length (iter_items e c) = unat e - unat c"
  using iter_items_map [of e c] by (metis length_map length_upt)

lemma distinct_iter_items [simp]: "distinct (iter_items e c)"
  using iter_items_map [of e c] by (metis distinct_map distinct_upt)

lemma sorted_iter_items: "sorted (iter_items e c)"
proof -
  have "sorted (map unat (iter_items e c))" by (simp add: iter_items_map)
  then show ?thesis
    unfolding sorted_map by (rule sorted_wrt_mono_rel [rotated]) (simp add: word_le_nat_alt)
qed

lemma set_iter_items: "set (iter_items e c) = {x. c \<le> x \<and> x < e}"
proof -
  have "x \<in> set (iter_items e c) \<longleftrightarrow> unat x \<in> set (map unat (iter_items e c))" for x
    by (auto dest: word_unat_eq_iff [THEN iffD2])
  then show ?thesis
    by (auto simp only: iter_items_map set_upt atLeastLessThan_iff word_le_nat_alt word_less_nat_alt mem_Collect_eq)
qed

lemma to_ceil_page_num_unat:
  "to_ceil_page_num a = Some c \<Longrightarrow> unat c = (unat a + 4095) div 4096"
proof -
  assume c: "to_ceil_page_num a = Some c"
  have m: "a mod PAGE_SIZE = 0 \<longleftrightarrow> unat a mod 4096 = 0"
    by (metis unat_eq_zero unat_mod_distrib unat_PAGE_SIZE)
  have d: "unat (a div PAGE_SIZE) = unat a div 4096"
    by (simp add: unat_div_distrib)
  show ?thesis
  proof (cases "a mod PAGE_SIZE = 0")
    case True
    with c m d show ?thesis
      using div_ceil_nat [of 4096 "unat a"] by (auto simp: to_ceil_page_num_def udiv_ceil_def)
  next
    case False
    with c have "uadd (a div PAGE_SIZE) 1 = Some c"
      by (simp add: to_ceil_page_num_def udiv_ceil_def)
    then have "unat c = unat a div 4096 + 1"
      by (drule_tac unat_uadd) (simp add: d)
    with False m show ?thesis using div_ceil_nat [of 4096 "unat a"] by simp
  qed
qed

lemma to_ceil_page_num_total: "\<exists>c. to_ceil_page_num a = Some c"
proof -
  have "unat (a div PAGE_SIZE) + 1 < 2 ^ 64"
    using unat_lt_u64 [of a] by (simp add: unat_div_distrib; linarith)
  then show ?thesis by (simp add: to_ceil_page_num_def udiv_ceil_def uadd_def)
qed

text \<open>Converting an address to its page number by aligning it down first
  (\<^verbatim>\<open>IPageNum::from_addr_floor\<close>) and by plain division (\<^verbatim>\<open>IToPageNum::to_floor_page_num\<close>)
  agree on every address, and neither panics.\<close>

theorem from_addr_floor_eq: "from_addr_floor a = Some (to_floor_page_num a)"
proof -
  obtain b where b: "align_down a PAGE_SIZE = Some b"
    using align_down_exp [of 12 a] by (simp add: PAGE_SIZE_exp)
  then have "unat b = unat a - unat a mod 4096"
    using unat_align_down [of 12 a b] by (simp add: PAGE_SIZE_exp)
  then have "unat (b div PAGE_SIZE) = unat (a div PAGE_SIZE)"
    by (simp add: unat_div_distrib minus_mod_eq_mult_div)
  with b show ?thesis
    by (simp add: from_addr_floor_def to_floor_page_num_def word_unat_eq_iff)
qed

lemma from_addr_ceil_unat:
  "unat a + 4096 < 2 ^ 64 \<Longrightarrow> \<exists>c. from_addr_ceil a = Some c \<and> unat c = unat a div 4096 + 1"
proof -
  assume "unat a + 4096 < 2 ^ 64"
  then obtain b where b: "align_up a PAGE_SIZE = Some b"
    using align_up_exp [of 12 a] by (auto simp: PAGE_SIZE_exp)
  then have "unat b = unat a - unat a mod 4096 + 4096"
    using unat_align_up [of 12 a b] by (simp add: PAGE_SIZE_exp)
  then have "unat (b div PAGE_SIZE) = unat a div 4096 + 1"
    by (simp add: unat_div_distrib minus_mod_eq_mult_div)
  with b show ?thesis by (simp add: from_addr_ceil_def)
qed



text \<open>\<^verbatim>\<open>AddressRange::intersection\<close> computes exactly the addresses two half-open ranges
  share, and returns none only when they share no address.\<close>

theorem ar_intersection_exact:
  "(case ar_intersection r s of None \<Rightarrow> {} | Some t \<Rightarrow> {x. ar_contains t x}) =
   {x. ar_contains r x \<and> ar_contains s x}"
  by (auto simp: ar_intersection_def ar_intersects_def ar_contains_def)

text \<open>C35: iterating a page range yields every page number the range contains, each once, in
  ascending order.\<close>

theorem pr_iter_exact:
  "set (pr_iter r) = {n. pr_contains r n} \<and> distinct (pr_iter r) \<and> sorted (pr_iter r)"
  using sorted_iter_items [of "pr_end r" "pr_start r"]
  by (auto simp: pr_iter_def set_iter_items pr_contains_def)

end
