(* ===== verification/Pte.thy ===== *)
theory Pte
  imports Address
begin

text \<open>
  Page-table entries: the generic mapping flags and error types
  (\<^verbatim>\<open>src/libraries/mmu-abstractions/src\<close>) and the entry formats of the two architectures
  (\<^verbatim>\<open>src/libraries/mmu-native/src/arch\<close>). Entries and flag sets are the words the
  sources wrap. The two implementations of \<^verbatim>\<open>IArchPageTableEntry\<close> and
  \<^verbatim>\<open>IPageTableArchAttribute\<close> are values of the record \<^verbatim>\<open>pt_arch\<close>, which the page
  table takes as its type parameters; the locale \<^verbatim>\<open>page_table_entry\<close> states what the page
  table relies on, and it is interpreted on both.
\<close>

section \<open>Generic flags, errors and page sizes\<close>

text \<open>\<^verbatim>\<open>GenericMappingFlags\<close>, a bitflags set over usize.\<close>

definition Readable :: usize where "Readable = shl 1 0"
definition Writable :: usize where "Writable = shl 1 1"
definition Executable :: usize where "Executable = shl 1 2"
definition User :: usize where "User = shl 1 3"
definition Kernel :: usize where "Kernel = shl 1 4"
definition Device :: usize where "Device = shl 1 5"
definition Uncached :: usize where "Uncached = shl 1 6"

definition gm_all :: usize where
  "gm_all = Readable OR Writable OR Executable OR User OR Kernel OR Device OR Uncached"

text \<open>The operations of the bitflags sets that the sources use: dropping unknown bits, and the
  two containment tests.\<close>

definition from_bits_truncate :: "usize \<Rightarrow> usize \<Rightarrow> usize" where
  "from_bits_truncate all bits = bits AND all"

definition contains_flags :: "usize \<Rightarrow> usize \<Rightarrow> bool" where
  "contains_flags self other \<longleftrightarrow> self AND other = other"

definition intersects_flags :: "usize \<Rightarrow> usize \<Rightarrow> bool" where
  "intersects_flags self other \<longleftrightarrow> self AND other \<noteq> 0"

datatype PagingError =
  NotAligned | NotMapped | AlreadyMapped | MappedToHugePage | CanNotModify | OutOfMemory

datatype MMUError =
  InvalidAddress | PrivilegeError | AccessFault | MisalignedAddress | Borrowed | MMUCanNotModify
| PageNotReadable usize | PageNotWritable usize

text \<open>\<^verbatim>\<open>Into<MMUError> for PagingError\<close>; the remaining errors are \<^verbatim>\<open>unimplemented!\<close>.\<close>

fun into_mmu_error :: "PagingError \<Rightarrow> (MMUError, MMUError) outcome" where
  "into_mmu_error NotAligned = Ok MisalignedAddress"
| "into_mmu_error NotMapped = Ok InvalidAddress"
| "into_mmu_error _ = Panic"

datatype PageSize = PS_4K | PS_2M | PS_1G | Custom usize

definition page_size_from :: "usize \<Rightarrow> PageSize" where
  "page_size_from v =
     (if v = 0x1000 then PS_4K else if v = 0x200000 then PS_2M
      else if v = 0x40000000 then PS_1G else Custom v)"

fun as_usize :: "PageSize \<Rightarrow> usize" where
  "as_usize PS_4K = 0x1000"
| "as_usize PS_2M = 0x200000"
| "as_usize PS_1G = 0x40000000"
| "as_usize (Custom v) = v"

section \<open>RISC-V 64 entries\<close>

definition RV_Valid :: usize where "RV_Valid = shl 1 0"
definition RV_Readable :: usize where "RV_Readable = shl 1 1"
definition RV_Writable :: usize where "RV_Writable = shl 1 2"
definition RV_Executable :: usize where "RV_Executable = shl 1 3"
definition RV_User :: usize where "RV_User = shl 1 4"
definition RV_Global :: usize where "RV_Global = shl 1 5"
definition RV_Accessed :: usize where "RV_Accessed = shl 1 6"
definition RV_Dirty :: usize where "RV_Dirty = shl 1 7"
definition RV_Reserved8 :: usize where "RV_Reserved8 = shl 1 8"

definition rv_all :: usize where
  "rv_all = RV_Valid OR RV_Readable OR RV_Writable OR RV_Executable OR RV_User OR RV_Global
     OR RV_Accessed OR RV_Dirty OR RV_Reserved8"

definition rv64_from_arch :: "usize \<Rightarrow> usize" where
  "rv64_from_arch bits =
     from_bits_truncate gm_all
       ((Kernel
         OR (shr (bits AND RV_User) (4 - 3))
         OR (shr (bits AND RV_Readable) (1 - 0))
         OR (shr (bits AND RV_Writable) (2 - 1))
         OR (shr (bits AND RV_Executable) (3 - 2)))
        AND ((bits AND 1) * gm_all))"

definition rv64_to_arch :: "usize \<Rightarrow> usize" where
  "rv64_to_arch bits =
     from_bits_truncate rv_all
       ((if bits \<noteq> 0 then 1 else 0)
        OR (shl (bits AND User) (4 - 3))
        OR (shl (bits AND Readable) (1 - 0))
        OR (shl (bits AND Writable) (2 - 1))
        OR (shl (bits AND Executable) (3 - 2)))"

definition PTE_FLAGS_MASK :: u64 where "PTE_FLAGS_MASK = 0x1FF"
definition PTE_PHYS_MASK :: u64 where "PTE_PHYS_MASK = (shl 1 54) - (shl 1 10)"

definition rv64_flags_internal :: "u64 \<Rightarrow> usize" where
  "rv64_flags_internal e = from_bits_truncate rv_all (e AND PTE_FLAGS_MASK)"

definition rv64_is_present :: "u64 \<Rightarrow> bool" where
  "rv64_is_present e = contains_flags (from_bits_truncate rv_all e) RV_Valid"

definition rv64_is_huge :: "u64 \<Rightarrow> bool" where
  "rv64_is_huge e = intersects_flags (from_bits_truncate rv_all e) (RV_Readable OR RV_Executable)"

definition rv64_is_empty :: "u64 \<Rightarrow> bool" where
  "rv64_is_empty e \<longleftrightarrow> e = 0"

definition rv64_new_table :: "usize \<Rightarrow> u64" where
  "rv64_new_table paddr = ((shr paddr 2) AND PTE_PHYS_MASK) OR RV_Valid"

definition rv64_paddr :: "u64 \<Rightarrow> usize" where
  "rv64_paddr e = shl (e AND PTE_PHYS_MASK) 2"

definition rv64_flags :: "u64 \<Rightarrow> usize" where
  "rv64_flags e = rv64_from_arch (rv64_flags_internal e)"

definition rv64_new_page :: "usize \<Rightarrow> usize \<Rightarrow> bool \<Rightarrow> u64" where
  "rv64_new_page paddr flags huge =
     (let flags = rv64_to_arch flags OR RV_Accessed OR RV_Dirty
      in flags OR ((shr paddr 2) AND PTE_PHYS_MASK))"

definition rv64_set_paddr :: "u64 \<Rightarrow> usize \<Rightarrow> u64" where
  "rv64_set_paddr e paddr = (e AND NOT PTE_PHYS_MASK) OR ((shr paddr 2) AND PTE_PHYS_MASK)"

definition rv64_set_flags :: "u64 \<Rightarrow> usize \<Rightarrow> bool \<Rightarrow> u64" where
  "rv64_set_flags e flags huge =
     (let flags = rv64_to_arch flags OR RV_Accessed OR RV_Dirty
      in (e AND PTE_PHYS_MASK) OR flags)"

definition rv64_clear :: "u64 \<Rightarrow> u64" where
  "rv64_clear e = 0"

definition rv64_remove_flags :: "u64 \<Rightarrow> usize \<Rightarrow> u64" where
  "rv64_remove_flags e flags = e AND NOT (rv64_to_arch flags)"

definition rv64_add_flags :: "u64 \<Rightarrow> usize \<Rightarrow> u64" where
  "rv64_add_flags e flags = e OR rv64_to_arch flags"

section \<open>LoongArch 64 entries\<close>

definition LA_V :: u64 where "LA_V = shl 1 0"
definition LA_D :: u64 where "LA_D = shl 1 1"
definition LA_PLVL :: u64 where "LA_PLVL = shl 1 2"
definition LA_PLVH :: u64 where "LA_PLVH = shl 1 3"
definition LA_MATL :: u64 where "LA_MATL = shl 1 4"
definition LA_MATH :: u64 where "LA_MATH = shl 1 5"
definition LA_GH :: u64 where "LA_GH = shl 1 6"
definition LA_P :: u64 where "LA_P = shl 1 7"
definition LA_W :: u64 where "LA_W = shl 1 8"
definition LA_G :: u64 where "LA_G = shl 1 12"
definition LA_NR :: u64 where "LA_NR = shl 1 61"
definition LA_NX :: u64 where "LA_NX = shl 1 62"
definition LA_RPLV :: u64 where "LA_RPLV = shl 1 63"

definition la_all :: u64 where
  "la_all = LA_V OR LA_D OR LA_PLVL OR LA_PLVH OR LA_MATL OR LA_MATH OR LA_GH OR LA_P OR LA_W
     OR LA_G OR LA_NR OR LA_NX OR LA_RPLV"

definition la64_to_arch :: "usize \<Rightarrow> u64" where
  "la64_to_arch bits =
     from_bits_truncate la_all
       ((LA_V OR LA_P OR LA_D
         OR (shl (NOT bits AND Readable) 61)
         OR (shl (bits AND Writable) (8 - 1))
         OR (shl (NOT bits AND Executable) (62 - 2))
         OR ((shr (bits AND User) 3) * 0b1100)
         OR ((shr (NOT bits AND Device) 5)
             * ((shr (bits AND Uncached) 1) OR (shr (NOT bits AND Uncached) 2))))
        * (if bits \<noteq> 0 then 1 else 0))"

definition la64_from_arch :: "u64 \<Rightarrow> usize" where
  "la64_from_arch bits =
     from_bits_truncate gm_all
       (((shr (NOT bits AND LA_NR) 61)
         OR (shr (bits AND LA_W) (8 - 1))
         OR (shr (NOT bits AND LA_NX) (62 - 2))
         OR (shl (if bits AND 0b1100 \<noteq> 0 then 1 else 0) 3)
         OR ((shr (NOT bits AND LA_MATL) 4)
             * ((shl (bits AND LA_MATH) 1) OR (NOT bits AND LA_MATH))))
        * (bits AND 1))"

definition PHYS_ADDR_MASK :: u64 where "PHYS_ADDR_MASK = 0x0000fffffffff000"

definition la64_flags_internal :: "u64 \<Rightarrow> u64" where
  "la64_flags_internal e = from_bits_truncate la_all e"

definition la64_is_present :: "u64 \<Rightarrow> bool" where
  "la64_is_present e = contains_flags (la64_flags_internal e) LA_P"

definition la64_is_huge :: "u64 \<Rightarrow> bool" where
  "la64_is_huge e = contains_flags (la64_flags_internal e) LA_GH"

definition la64_is_empty :: "u64 \<Rightarrow> bool" where
  "la64_is_empty e \<longleftrightarrow> e = 0"

definition la64_new_table :: "usize \<Rightarrow> u64" where
  "la64_new_table paddr = paddr AND PHYS_ADDR_MASK"

definition la64_paddr :: "u64 \<Rightarrow> usize" where
  "la64_paddr e = e AND PHYS_ADDR_MASK"

definition la64_flags :: "u64 \<Rightarrow> usize" where
  "la64_flags e = la64_from_arch (la64_flags_internal e)"

definition la64_new_page :: "usize \<Rightarrow> usize \<Rightarrow> bool \<Rightarrow> u64" where
  "la64_new_page paddr flags huge =
     (let flags = la64_to_arch flags;
          flags = (if huge then flags OR LA_GH else flags)
      in flags OR (paddr AND PHYS_ADDR_MASK))"

definition la64_set_paddr :: "u64 \<Rightarrow> usize \<Rightarrow> u64" where
  "la64_set_paddr e paddr = (e AND NOT PHYS_ADDR_MASK) OR (paddr AND PHYS_ADDR_MASK)"

definition la64_set_flags :: "u64 \<Rightarrow> usize \<Rightarrow> bool \<Rightarrow> u64" where
  "la64_set_flags e flags huge =
     (let flags = la64_to_arch flags;
          flags = (if huge then flags OR LA_GH else flags)
      in (e AND PHYS_ADDR_MASK) OR flags)"

definition la64_clear :: "u64 \<Rightarrow> u64" where
  "la64_clear e = 0"

definition la64_remove_flags :: "u64 \<Rightarrow> usize \<Rightarrow> u64" where
  "la64_remove_flags e flags = (let to_remove = la64_to_arch flags AND 0b110000 in e AND NOT to_remove)"

definition la64_add_flags :: "u64 \<Rightarrow> usize \<Rightarrow> u64" where
  "la64_add_flags e flags = e OR la64_to_arch flags"

section \<open>The architecture parameters of the page table\<close>

text \<open>The two type parameters of \<^verbatim>\<open>PageTableNative\<close>, and the \<^verbatim>\<open>cfg\<close> on the target
  architecture that selects the presence test of \<^verbatim>\<open>get_next_level\<close>.\<close>

record pt_arch =
  LEVELS :: nat
  PA_MAX_BITS :: nat
  VA_MAX_BITS :: nat
  loongarch64 :: bool
  is_present :: "u64 \<Rightarrow> bool"
  is_huge :: "u64 \<Rightarrow> bool"
  is_empty :: "u64 \<Rightarrow> bool"
  new_table :: "usize \<Rightarrow> u64"
  pte_paddr :: "u64 \<Rightarrow> usize"
  pte_flags :: "u64 \<Rightarrow> usize"
  new_page :: "usize \<Rightarrow> usize \<Rightarrow> bool \<Rightarrow> u64"
  set_paddr :: "u64 \<Rightarrow> usize \<Rightarrow> u64"
  set_flags :: "u64 \<Rightarrow> usize \<Rightarrow> bool \<Rightarrow> u64"
  pte_clear :: "u64 \<Rightarrow> u64"

definition sv39 :: pt_arch where
  "sv39 = \<lparr>LEVELS = 3, PA_MAX_BITS = 56, VA_MAX_BITS = 39, loongarch64 = False,
     is_present = rv64_is_present, is_huge = rv64_is_huge, is_empty = rv64_is_empty,
     new_table = rv64_new_table, pte_paddr = rv64_paddr, pte_flags = rv64_flags,
     new_page = rv64_new_page, set_paddr = rv64_set_paddr, set_flags = rv64_set_flags,
     pte_clear = rv64_clear\<rparr>"

definition la64 :: pt_arch where
  "la64 = \<lparr>LEVELS = 4, PA_MAX_BITS = 48, VA_MAX_BITS = 48, loongarch64 = True,
     is_present = la64_is_present, is_huge = la64_is_huge, is_empty = la64_is_empty,
     new_table = la64_new_table, pte_paddr = la64_paddr, pte_flags = la64_flags,
     new_page = la64_new_page, set_paddr = la64_set_paddr, set_flags = la64_set_flags,
     pte_clear = la64_clear\<rparr>"

lemmas gm_defs = Readable_def [simplified] Writable_def [simplified] Executable_def [simplified]
  User_def [simplified] Kernel_def [simplified] Device_def [simplified] Uncached_def [simplified]

lemmas rv_defs = RV_Valid_def [simplified] RV_Readable_def [simplified] RV_Writable_def [simplified]
  RV_Executable_def [simplified] RV_User_def [simplified] RV_Global_def [simplified]
  RV_Accessed_def [simplified] RV_Dirty_def [simplified] RV_Reserved8_def [simplified]

lemmas la_defs = LA_V_def [simplified] LA_D_def [simplified] LA_PLVL_def [simplified]
  LA_PLVH_def [simplified] LA_MATL_def [simplified] LA_MATH_def [simplified] LA_GH_def [simplified]
  LA_P_def [simplified] LA_W_def [simplified] LA_G_def [simplified] LA_NR_def [simplified]
  LA_NX_def [simplified] LA_RPLV_def [simplified]

lemmas flag_set_defs = from_bits_truncate_def contains_flags_def intersects_flags_def

lemma bit_single: "k < 64 \<Longrightarrow> bit (push_bit k 1 :: u64) n \<longleftrightarrow> n = k"
  by (auto simp: bit_simps)

lemma and_single: "k < 64 \<Longrightarrow> x AND push_bit k 1 = (if bit x k then push_bit k 1 else 0)" for x :: u64
  by (rule bit_word_eqI) (auto simp: bit_simps)

lemma bit_PTE_PHYS_MASK: "bit PTE_PHYS_MASK n \<longleftrightarrow> 10 \<le> n \<and> n < 54"
proof -
  have eq: "PTE_PHYS_MASK = push_bit 10 (mask 44)"
    by (simp add: PTE_PHYS_MASK_def mask_eq_exp_minus_1)
  show ?thesis unfolding eq by (auto simp: bit_simps)
qed

lemma bit_PHYS_ADDR_MASK: "bit PHYS_ADDR_MASK n \<longleftrightarrow> 12 \<le> n \<and> n < 48"
proof -
  have eq: "PHYS_ADDR_MASK = push_bit 12 (mask 36)"
    by (simp add: PHYS_ADDR_MASK_def mask_eq_exp_minus_1)
  show ?thesis unfolding eq by (auto simp: bit_simps)
qed

lemma aligned_bit: "is_page_aligned p \<Longrightarrow> bit p n \<Longrightarrow> 12 \<le> n"
proof (rule ccontr)
  assume a: "is_page_aligned p" "bit p n" "\<not> 12 \<le> n"
  have "p mod 2 ^ 12 = 0"
    using a(1) by (simp add: is_page_aligned_def is_aligned_def PAGE_SIZE_def)
  then have "take_bit 12 p = 0" by (simp add: take_bit_eq_mod)
  then have "\<not> bit (take_bit 12 p) n" by simp
  with a show False by (simp add: bit_take_bit_iff)
qed

lemma bounded_bit: "unat p < 2 ^ k \<Longrightarrow> bit p n \<Longrightarrow> n < k" for p :: usize
proof (rule ccontr)
  assume a: "unat p < 2 ^ k" "bit p n" "\<not> n < k"
  have "take_bit k (unat p) = unat p" using a(1) by (simp add: take_bit_nat_eq_self_iff)
  then have "\<not> bit (unat p) n" using a(3) by (metis bit_take_bit_iff)
  with a(2) show False by (simp add: bit_unsigned_iff)
qed

lemma rv_all_mask: "rv_all = mask 9"
  by (simp add: rv_all_def rv_defs mask_eq_exp_minus_1)

lemma rv64_flags_internal_bits: "bit (rv64_flags_internal e) n \<longleftrightarrow> n < 9 \<and> bit e n"
proof -
  have eq: "PTE_FLAGS_MASK = mask 9" by (simp add: PTE_FLAGS_MASK_def mask_eq_exp_minus_1)
  show ?thesis unfolding rv64_flags_internal_def flag_set_defs eq rv_all_mask
    by (auto simp: bit_simps)
qed

lemma gm_all_mask: "gm_all = mask 7"
  by (simp add: gm_all_def gm_defs mask_eq_exp_minus_1)

lemma and_1_u64: "x AND 1 = (if bit x 0 then 1 else 0)" for x :: u64
  using and_single [of 0 x] by simp

lemmas single_bits = and_1_u64 and_single [of 1, simplified] and_single [of 2, simplified]
  and_single [of 3, simplified] and_single [of 4, simplified] and_single [of 5, simplified]
  and_single [of 6, simplified] and_single [of 7, simplified] and_single [of 8, simplified]
  and_single [of 61, simplified] and_single [of 62, simplified]

lemma rv64_to_arch_eq:
  "rv64_to_arch f = (if f \<noteq> 0 then 1 else 0) OR (if bit f 3 then 16 else 0) OR (if bit f 0 then 2 else 0)
    OR (if bit f 1 then 4 else 0) OR (if bit f 2 then 8 else 0)"
  unfolding rv64_to_arch_def flag_set_defs rv_all_mask gm_defs single_bits
  by (simp add: mask_eq_exp_minus_1)

lemma rv64_from_arch_eq:
  "rv64_from_arch e = (if bit e 0 then 16 OR (if bit e 4 then 8 else 0) OR (if bit e 1 then 1 else 0)
     OR (if bit e 2 then 2 else 0) OR (if bit e 3 then 4 else 0) else 0)"
  unfolding rv64_from_arch_def flag_set_defs gm_all_mask gm_defs rv_defs single_bits
  by (simp add: mask_eq_exp_minus_1)

lemma la64_to_arch_eq:
  "la64_to_arch f = (if f = 0 then 0 else 131 OR (if bit f 0 then 0 else 2 ^ 61) OR (if bit f 1 then 256 else 0)
    OR (if bit f 2 then 0 else 2 ^ 62) OR (if bit f 3 then 12 else 0) OR
    (if bit f 5 then 0 else if bit f 6 then 32 else 16))"
  unfolding la64_to_arch_def flag_set_defs la_all_def la_defs gm_defs single_bits
  by (simp add: bit_not_iff)

lemma la64_from_arch_eq:
  "la64_from_arch e = (if bit e 0 then (if bit e 61 then 0 else 1) OR (if bit e 8 then 2 else 0)
    OR (if bit e 62 then 0 else 4) OR (if e AND 12 \<noteq> 0 then 8 else 0) OR
    (if bit e 4 then 0 else if bit e 5 then 64 else 32) else 0)"
  unfolding la64_from_arch_def flag_set_defs gm_all_mask la_defs gm_defs single_bits
  by (simp add: bit_not_iff mask_eq_exp_minus_1)


lemma low_bits: "x AND mask k = x \<Longrightarrow> bit x n \<Longrightarrow> n < k" for x :: u64
  by (metis bit_and_iff bit_mask_iff)

lemma rv64_to_arch_low: "rv64_to_arch f AND mask 9 = rv64_to_arch f"
  by (simp add: rv64_to_arch_eq mask_eq_exp_minus_1)

lemma rv64_page_low:
  "(rv64_to_arch f OR RV_Accessed OR RV_Dirty) AND mask 9 = rv64_to_arch f OR RV_Accessed OR RV_Dirty"
  unfolding rv_defs by (simp add: rv64_to_arch_eq mask_eq_exp_minus_1)

lemma rv64_paddr_join:
  assumes "is_page_aligned p" "unat p < 2 ^ 56" "x AND mask 9 = x"
  shows "rv64_paddr (x OR (shr p 2 AND PTE_PHYS_MASK)) = p"
proof (rule bit_word_eqI)
  fix n assume "n < LENGTH(64)"
  have "\<not> bit x k" if "10 \<le> k" for k using low_bits [OF assms(3), of k] that by auto
  moreover have "bit p n \<Longrightarrow> 12 \<le> n \<and> n < 56"
    using aligned_bit [OF assms(1)] bounded_bit [OF assms(2)] by blast
  ultimately show "bit (rv64_paddr (x OR (shr p 2 AND PTE_PHYS_MASK))) n = bit p n"
    using \<open>n < LENGTH(64)\<close> le_add_diff_inverse [of 2 n]
    by (auto simp: rv64_paddr_def bit_simps bit_PTE_PHYS_MASK)
qed

lemma rv64_flags_join:
  assumes "x AND mask 9 = x"
  shows "rv64_flags_internal (x OR (y AND PTE_PHYS_MASK)) = x"
  using low_bits [OF assms]
  by (intro bit_word_eqI) (auto simp: rv64_flags_internal_bits bit_simps bit_PTE_PHYS_MASK)

text \<open>What a mapping's flags are when they are read back.\<close>

definition rv64_canon :: "usize \<Rightarrow> usize" where
  "rv64_canon f = (if f = 0 then 0 else Kernel OR (f AND (Readable OR Writable OR Executable OR User)))"

definition la64_canon :: "usize \<Rightarrow> usize" where
  "la64_canon f =
     (f AND (Readable OR Writable OR Executable OR User OR Device))
     OR (if f AND Device = 0 then f AND Uncached else 0)"

lemma and_split: "x AND (a OR b) = (x AND a) OR (x AND b)" for x :: u64
  by (rule bit_word_eqI) (auto simp: bit_simps)

lemma rv64_flags_page: "rv64_from_arch (rv64_to_arch f OR RV_Accessed OR RV_Dirty) = rv64_canon f"
  unfolding rv64_from_arch_eq rv64_to_arch_eq rv64_canon_def and_split gm_defs rv_defs single_bits
  by (simp add: bit_or_iff)

lemma la64_to_arch_low: "bit (la64_to_arch f) n \<Longrightarrow> n < 12 \<or> 48 \<le> n"
proof -
  have "la64_to_arch f AND PHYS_ADDR_MASK = 0"
    by (simp add: la64_to_arch_eq PHYS_ADDR_MASK_def)
  then have "bit (la64_to_arch f) n \<Longrightarrow> \<not> bit PHYS_ADDR_MASK n"
    by (metis bit_and_iff bit_0_eq bot_apply bot_bool_def)
  then show "bit (la64_to_arch f) n \<Longrightarrow> n < 12 \<or> 48 \<le> n" by (auto simp: bit_PHYS_ADDR_MASK)
qed

lemma la64_paddr_join:
  assumes "is_page_aligned p" "unat p < 2 ^ 48" "x AND PHYS_ADDR_MASK = 0"
  shows "la64_paddr (x OR (p AND PHYS_ADDR_MASK)) = p"
proof (rule bit_word_eqI)
  fix n assume "n < LENGTH(64)"
  have "bit x n \<Longrightarrow> \<not> bit PHYS_ADDR_MASK n"
    by (metis assms(3) bit_and_iff bit_0_eq bot_apply bot_bool_def)
  moreover have "bit p n \<Longrightarrow> 12 \<le> n \<and> n < 48"
    using aligned_bit [OF assms(1)] bounded_bit [OF assms(2)] by blast
  ultimately show "bit (la64_paddr (x OR (p AND PHYS_ADDR_MASK))) n = bit p n"
    by (auto simp: la64_paddr_def bit_simps bit_PHYS_ADDR_MASK)
qed

lemma la64_from_arch_join:
  "la64_from_arch (la64_flags_internal (x OR (y AND PHYS_ADDR_MASK))) = la64_from_arch x"
proof -
  have b: "bit (la64_flags_internal (x OR (y AND PHYS_ADDR_MASK))) n = bit x n" if "n \<in> {0,4,5,8,61,62}" for n
    using that by (auto simp: la64_flags_internal_def flag_set_defs la_all_def la_defs bit_or_iff bit_and_iff bit_PHYS_ADDR_MASK)
  have "la64_flags_internal (x OR (y AND PHYS_ADDR_MASK)) AND 12 = x AND 12"
  proof -
    have "la_all AND 12 = 12" "PHYS_ADDR_MASK AND 12 = 0" by (simp_all add: la_all_def la_defs PHYS_ADDR_MASK_def)
    then show ?thesis
      unfolding la64_flags_internal_def flag_set_defs
      by (smt (verit) and.assoc and.commute and_split or.right_neutral and_zero_eq)
  qed
  then show ?thesis unfolding la64_from_arch_eq using b by simp
qed

lemma la64_flags_page: "la64_from_arch (la64_to_arch f OR g) = la64_canon f" if "g = 0 \<or> g = LA_GH"
proof (cases "f = 0")
  case True
  with that show ?thesis
    by (auto simp: la64_from_arch_eq la64_to_arch_eq la64_canon_def la_defs)
next
  case False
  from that consider "g = 0" | "g = 64" by (auto simp: la_defs)
  then show ?thesis
    using False
    unfolding la64_from_arch_eq la64_to_arch_eq la64_canon_def and_split gm_defs single_bits
    by cases (simp_all add: bit_or_iff)
qed

section \<open>The contract of an entry format\<close>

text \<open>What the page table relies on: an empty entry is the zero word and leads nowhere, a table
  entry leads to the table it was made for, a page entry gives back its frame and its flags (as
  \<^verbatim>\<open>canon\<close> says), and rewriting an entry is the same as making it anew.\<close>

locale page_table_entry =
  fixes A :: pt_arch and canon :: "usize \<Rightarrow> usize" and leafable :: "usize \<Rightarrow> bool"
  assumes levels: "LEVELS A = 3 \<or> LEVELS A = 4"
    and empty_iff: "is_empty A e \<longleftrightarrow> e = 0"
    and clear_0: "pte_clear A e = 0"
    and zero_not_huge: "\<not> is_huge A 0"
    and zero_no_table: "if loongarch64 A then pte_paddr A 0 = 0 else \<not> is_present A 0"
    and table_entry: "is_page_aligned p \<Longrightarrow> p \<noteq> 0 \<Longrightarrow> unat p < 2 ^ PA_MAX_BITS A \<Longrightarrow>
      new_table A p \<noteq> 0 \<and> \<not> is_huge A (new_table A p) \<and> pte_paddr A (new_table A p) = p
      \<and> (\<not> loongarch64 A \<longrightarrow> is_present A (new_table A p))"
    and page_paddr: "is_page_aligned p \<Longrightarrow> unat p < 2 ^ PA_MAX_BITS A \<Longrightarrow>
      pte_paddr A (new_page A p f h) = p"
    and page_flags: "pte_flags A (new_page A p f h) = canon f"
    and page_present: "f \<noteq> 0 \<Longrightarrow> is_present A (new_page A p f h)"
    and page_nonempty: "f \<noteq> 0 \<Longrightarrow> new_page A p f h \<noteq> 0"
    and page_huge: "leafable f \<Longrightarrow> is_huge A (new_page A p f True)"
    and paddr_aligned: "is_page_aligned (pte_paddr A e)"
    and page_update: "set_flags A (set_paddr A e p) f h = new_page A p f h"

definition rv64_leafable :: "usize \<Rightarrow> bool" where
  "rv64_leafable f \<longleftrightarrow> f AND (Readable OR Executable) \<noteq> 0"

definition la64_leafable :: "usize \<Rightarrow> bool" where
  "la64_leafable f \<longleftrightarrow> True"

lemma rv64_is_present_bit: "rv64_is_present e \<longleftrightarrow> bit e 0"
  unfolding rv64_is_present_def flag_set_defs rv_all_mask rv_defs and_1_u64
  by (simp add: bit_simps)

lemma rv64_is_huge_bit: "rv64_is_huge e \<longleftrightarrow> bit e 1 \<or> bit e 3"
proof -
  have "rv64_is_huge e \<longleftrightarrow> (e AND mask 9) AND 2 \<noteq> 0 \<or> (e AND mask 9) AND 8 \<noteq> 0"
    unfolding rv64_is_huge_def flag_set_defs rv_all_mask rv_defs and_split
    by (metis or.left_neutral or_eq_0_iff)
  then show ?thesis unfolding single_bits by (simp add: bit_simps)
qed

lemma rv64_new_page_bits:
  "n < 9 \<Longrightarrow> bit (rv64_new_page p f h) n = bit (rv64_to_arch f OR RV_Accessed OR RV_Dirty) n"
  by (auto simp: rv64_new_page_def bit_or_iff bit_and_iff bit_PTE_PHYS_MASK)

lemma rv64_new_page_present: "f \<noteq> 0 \<Longrightarrow> rv64_is_present (rv64_new_page p f h)"
  by (simp add: rv64_is_present_bit rv64_new_page_bits bit_or_iff rv64_to_arch_eq)

lemma rv64_update: "rv64_set_flags (rv64_set_paddr e p) f h = rv64_new_page p f h"
  by (rule bit_word_eqI)
    (auto simp: rv64_set_flags_def rv64_set_paddr_def rv64_new_page_def bit_simps)

lemma rv64_table:
  assumes "is_page_aligned p" "unat p < 2 ^ 56"
  shows "rv64_paddr (rv64_new_table p) = p"
proof -
  have "RV_Valid AND mask 9 = RV_Valid" by (simp add: rv_defs mask_eq_exp_minus_1)
  then show ?thesis
    using rv64_paddr_join [OF assms, of RV_Valid] by (simp add: rv64_new_table_def or.commute)
qed

lemma rv64_new_table_bits: "n < 9 \<Longrightarrow> bit (rv64_new_table p) n \<longleftrightarrow> n = 0"
  by (auto simp: rv64_new_table_def rv_defs bit_or_iff bit_and_iff bit_PTE_PHYS_MASK bit_1_iff)

lemma rv64_new_table_nonempty: "rv64_new_table p \<noteq> 0"
  using rv64_new_table_bits [of 0 p] by (metis bit_0_eq bot_apply bot_bool_def zero_less_numeral)

lemma rv64_new_page_huge: "rv64_leafable f \<Longrightarrow> rv64_is_huge (rv64_new_page p f h)"
proof -
  assume "rv64_leafable f"
  then have "bit f 0 \<or> bit f 2"
    unfolding rv64_leafable_def and_split gm_defs single_bits by (simp split: if_splits)
  then show ?thesis
    by (auto simp: rv64_is_huge_bit rv64_new_page_bits bit_or_iff rv64_to_arch_eq)
qed

lemma aligned_bits: "(\<And>n. bit p n \<Longrightarrow> 12 \<le> n) \<Longrightarrow> is_page_aligned p"
proof -
  assume "\<And>n. bit p n \<Longrightarrow> 12 \<le> n"
  then have "take_bit 12 p = 0" by (intro bit_word_eqI) (auto simp: bit_take_bit_iff not_less)
  then show ?thesis
    by (simp add: take_bit_eq_mod is_page_aligned_def is_aligned_def PAGE_SIZE_def)
qed

interpretation rv64: page_table_entry sv39 rv64_canon rv64_leafable
proof
  fix e p f h
  show "is_page_aligned p \<Longrightarrow> p \<noteq> 0 \<Longrightarrow> unat p < 2 ^ PA_MAX_BITS sv39 \<Longrightarrow>
      new_table sv39 p \<noteq> 0 \<and> \<not> is_huge sv39 (new_table sv39 p)
      \<and> pte_paddr sv39 (new_table sv39 p) = p
      \<and> (\<not> loongarch64 sv39 \<longrightarrow> is_present sv39 (new_table sv39 p))"
    by (auto simp: sv39_def rv64_table rv64_new_table_nonempty rv64_is_huge_bit rv64_is_present_bit rv64_new_table_bits)
  show "is_page_aligned p \<Longrightarrow> unat p < 2 ^ PA_MAX_BITS sv39 \<Longrightarrow>
      pte_paddr sv39 (new_page sv39 p f h) = p"
    using rv64_paddr_join [OF _ _ rv64_page_low] by (simp add: sv39_def rv64_new_page_def Let_def)
  show "pte_flags sv39 (new_page sv39 p f h) = rv64_canon f"
    using rv64_flags_join [OF rv64_page_low] rv64_flags_page
    by (simp add: sv39_def rv64_new_page_def rv64_flags_def Let_def)
  show "f \<noteq> 0 \<Longrightarrow> new_page sv39 p f h \<noteq> 0"
    using rv64_new_page_present [of f p h] by (auto simp: sv39_def rv64_is_present_bit)
  show "is_page_aligned (pte_paddr sv39 e)"
    by (rule aligned_bits) (auto simp: sv39_def rv64_paddr_def bit_simps bit_PTE_PHYS_MASK)
  show "\<not> is_huge sv39 0" by (simp add: sv39_def rv64_is_huge_bit)
  show "if loongarch64 sv39 then pte_paddr sv39 0 = 0 else \<not> is_present sv39 0"
    by (simp add: sv39_def rv64_is_present_bit)
qed (simp_all add: sv39_def rv64_is_empty_def rv64_clear_def rv64_update rv64_new_page_present
  rv64_new_page_huge)

lemma la64_mask_and: "la64_to_arch f AND PHYS_ADDR_MASK = 0" "LA_GH AND PHYS_ADDR_MASK = 0"
  by (simp_all add: la64_to_arch_eq PHYS_ADDR_MASK_def la_defs)

lemma la64_page_flags: "(if h then la64_to_arch f OR LA_GH else la64_to_arch f)
   = la64_to_arch f OR (if h then LA_GH else 0)"
  by simp

lemma la64_new_page_eq:
  "la64_new_page p f h = (la64_to_arch f OR (if h then LA_GH else 0)) OR (p AND PHYS_ADDR_MASK)"
  by (simp add: la64_new_page_def)

lemma la64_page_mask: "(la64_to_arch f OR (if h then LA_GH else 0)) AND PHYS_ADDR_MASK = 0"
  by (simp add: la64_mask_and and.commute [of _ PHYS_ADDR_MASK] and_split)
    (simp add: and.commute [of PHYS_ADDR_MASK] la64_mask_and)

lemma la64_flag_bits:
  "la64_is_present e \<longleftrightarrow> bit e 7" "la64_is_huge e \<longleftrightarrow> bit e 6"
proof -
  have "bit la_all 7" "bit la_all 6" by (simp_all add: la_all_def la_defs)
  then show "la64_is_present e \<longleftrightarrow> bit e 7" "la64_is_huge e \<longleftrightarrow> bit e 6"
    unfolding la64_is_present_def la64_is_huge_def la64_flags_internal_def flag_set_defs la_defs single_bits
    by (simp_all add: bit_simps)
qed

lemma la64_new_page_present: "f \<noteq> 0 \<Longrightarrow> bit (la64_new_page p f h) 7"
  by (simp add: la64_new_page_eq bit_or_iff la64_to_arch_eq)

lemma la64_update: "la64_set_flags (la64_set_paddr e p) f h = la64_new_page p f h"
  by (rule bit_word_eqI)
    (auto simp: la64_set_flags_def la64_set_paddr_def la64_new_page_def Let_def bit_simps)

lemma la64_table:
  assumes "is_page_aligned p" "unat p < 2 ^ 48"
  shows "la64_new_table p = p"
  using la64_paddr_join [OF assms, of 0] by (simp add: la64_new_table_def la64_paddr_def)

lemma la64_table_paddr:
  assumes "is_page_aligned p" "unat p < 2 ^ 48"
  shows "la64_paddr p = p"
  using la64_table [OF assms] by (simp add: la64_new_table_def la64_paddr_def)

interpretation la64: page_table_entry la64 la64_canon la64_leafable
proof
  fix e p f h
  show "is_page_aligned p \<Longrightarrow> p \<noteq> 0 \<Longrightarrow> unat p < 2 ^ PA_MAX_BITS la64 \<Longrightarrow>
      new_table la64 p \<noteq> 0 \<and> \<not> is_huge la64 (new_table la64 p)
      \<and> pte_paddr la64 (new_table la64 p) = p
      \<and> (\<not> loongarch64 la64 \<longrightarrow> is_present la64 (new_table la64 p))"
    using aligned_bit [of p 6]
    by (auto simp: la64_def la64_table la64_table_paddr la64_flag_bits)
  show "is_page_aligned p \<Longrightarrow> unat p < 2 ^ PA_MAX_BITS la64 \<Longrightarrow>
      pte_paddr la64 (new_page la64 p f h) = p"
    using la64_paddr_join [OF _ _ la64_page_mask] by (simp add: la64_def la64_new_page_eq)
  show "pte_flags la64 (new_page la64 p f h) = la64_canon f"
    using la64_flags_page [of "if h then LA_GH else 0" f]
    by (simp add: la64_def la64_new_page_eq la64_flags_def la64_from_arch_join split: if_splits)
  show "f \<noteq> 0 \<Longrightarrow> new_page la64 p f h \<noteq> 0"
    using la64_new_page_present [of f p h] by (auto simp: la64_def)
  show "is_page_aligned (pte_paddr la64 e)"
    by (rule aligned_bits) (auto simp: la64_def la64_paddr_def bit_simps bit_PHYS_ADDR_MASK)
  show "la64_leafable f \<Longrightarrow> is_huge la64 (new_page la64 p f True)"
    by (simp add: la64_def la64_flag_bits la64_new_page_eq bit_or_iff la_defs)
  show "if loongarch64 la64 then pte_paddr la64 0 = 0 else \<not> is_present la64 0"
    by (simp add: la64_def la64_paddr_def)
qed (auto simp: la64_def la64_is_empty_def la64_clear_def la64_flag_bits la64_update
  la64_new_page_present)

section \<open>Properties\<close>

text \<open>C21: A RISC-V entry made for a page-aligned frame below the 56-bit limit gives back that
  frame, is present for every non-empty set of flags, and its flags read back as the permissions
  that were asked for plus the kernel bit; a table entry gives back its table and is neither
  absent nor taken for a huge page.\<close>

theorem rv64_entry_roundtrip:
  assumes "is_page_aligned p" and "unat p < 2 ^ 56" and "f \<noteq> 0"
  shows "rv64_paddr (rv64_new_page p f h) = p
    \<and> rv64_flags (rv64_new_page p f h)
        = Kernel OR (f AND (Readable OR Writable OR Executable OR User))
    \<and> rv64_is_present (rv64_new_page p f h)
    \<and> rv64_paddr (rv64_new_table p) = p
    \<and> rv64_is_present (rv64_new_table p) \<and> \<not> rv64_is_huge (rv64_new_table p)"
  using rv64.page_paddr [of p f h] rv64.page_flags [of p f h] assms rv64_table [of p]
  by (simp add: sv39_def rv64_canon_def rv64_new_page_present rv64_is_present_bit
      rv64_new_table_bits rv64_is_huge_bit rv64_new_page_present [unfolded rv64_is_present_bit])

theorem rv64_entry_roundtrip_witness:
  "rv64_paddr (rv64_new_page 0x80200000 (Readable OR User) False) = 0x80200000
    \<and> rv64_flags (rv64_new_page 0x80200000 (Readable OR User) False) = 25"
  using rv64_entry_roundtrip [of "0x80200000" "Readable OR User" False]
  by (simp add: is_page_aligned_def is_aligned_def PAGE_SIZE_def gm_defs)

text \<open>C22: A LoongArch entry made for a page-aligned frame below the 48-bit limit gives back
  that frame; it is present and huge as asked; the permissions, the user bit and the device bit
  read back as given, the uncached bit unless the page is a device page, and the kernel bit is
  lost.\<close>

theorem la64_entry_roundtrip:
  assumes "is_page_aligned p" and "unat p < 2 ^ 48" and "f \<noteq> 0"
  shows "la64_paddr (la64_new_page p f h) = p
    \<and> la64_flags (la64_new_page p f h)
        = (f AND (Readable OR Writable OR Executable OR User OR Device))
          OR (if f AND Device = 0 then f AND Uncached else 0)
    \<and> la64_is_present (la64_new_page p f h)
    \<and> la64_is_huge (la64_new_page p f h) = h
    \<and> la64_paddr (la64_new_table p) = p \<and> \<not> la64_is_huge (la64_new_table p)"
proof -
  have "bit (la64_new_page p f h) 6 = h"
    using assms(3)
    by (simp add: la64_new_page_eq bit_or_iff bit_and_iff bit_PHYS_ADDR_MASK la64_to_arch_eq la_defs)
  moreover have "\<not> bit p 6" using aligned_bit [OF assms(1), of 6] by auto
  ultimately show ?thesis
    using la64.page_paddr [of p f h] la64.page_flags [of p f h] assms
    by (simp add: la64_def la64_canon_def la64_flag_bits la64_new_page_present la64_table
        la64_table_paddr)
qed

theorem la64_entry_roundtrip_witness:
  "la64_paddr (la64_new_page 0x90000000 (Writable OR Device OR Uncached) True) = 0x90000000
    \<and> la64_flags (la64_new_page 0x90000000 (Writable OR Device OR Uncached) True) = Writable OR Device"
  using la64_entry_roundtrip [of "0x90000000" "Writable OR Device OR Uncached" True]
  by (simp add: is_page_aligned_def is_aligned_def PAGE_SIZE_def gm_defs)

text \<open>\<^verbatim>\<open>remove_flags\<close> on RISC-V also clears the valid bit, whatever is removed: the entry
  keeps its frame but is no longer present and reads back without any permission.\<close>

theorem rv64_remove_flags_invalidates:
  assumes "f \<noteq> 0"
  shows "\<not> rv64_is_present (rv64_remove_flags e f)
    \<and> rv64_flags (rv64_remove_flags e f) = 0
    \<and> rv64_paddr (rv64_remove_flags e f) = rv64_paddr e"
proof (intro conjI)
  have b: "bit (rv64_to_arch f) 0" using assms by (simp add: rv64_to_arch_eq bit_or_iff)
  then show "\<not> rv64_is_present (rv64_remove_flags e f)"
    by (simp add: rv64_is_present_bit rv64_remove_flags_def bit_simps)
  show "rv64_flags (rv64_remove_flags e f) = 0"
    using b by (simp add: rv64_flags_def rv64_from_arch_eq rv64_flags_internal_bits
        rv64_remove_flags_def bit_simps)
  have "\<not> bit (rv64_to_arch f) k" if "10 \<le> k" for k
    using low_bits [OF rv64_to_arch_low, of f k] that by auto
  then show "rv64_paddr (rv64_remove_flags e f) = rv64_paddr e"
    by (intro bit_word_eqI) (auto simp: rv64_paddr_def rv64_remove_flags_def bit_simps
        bit_PTE_PHYS_MASK)
qed

theorem rv64_remove_flags_invalidates_witness:
  "\<not> rv64_is_present (rv64_remove_flags (rv64_new_page 0x1000 (Readable OR Writable) False) Writable)"
  using rv64_remove_flags_invalidates [of Writable] by (simp add: gm_defs)

end
