(* ===== verification/Frame_Allocator.thy ===== *)
theory Frame_Allocator
  imports Address
begin

text \<open>
  The physical frame allocator (\<^verbatim>\<open>src/libraries/allocation/src/lib.rs\<close>) behind the
  \<^verbatim>\<open>IFrameAllocator\<close> trait (\<^verbatim>\<open>src/libraries/allocation-abstractions\<close>). The
  state is the record of the struct; the \<^verbatim>\<open>recycled\<close> vector is a list whose last element
  is the one \<^verbatim>\<open>pop\<close> returns. A \<^verbatim>\<open>FrameDesc\<close> is the physical address it wraps. The
  abstract state is the set of frames that are handed out and not yet returned; the locale
  \<^verbatim>\<open>frame_allocation\<close> is the contract clients rely on, and it is interpreted on this
  allocator at the end.
\<close>

section \<open>State and operations\<close>

record frame_allocator =
  fa_top :: usize
  fa_bottom :: usize
  current :: usize
  recycled :: "usize list"

record frame_range_desc =
  range_start :: usize
  range_end :: usize

definition fa_new :: "usize \<Rightarrow> usize \<Rightarrow> frame_allocator" where
  "fa_new t b = \<lparr>fa_top = t, fa_bottom = b, current = b, recycled = []\<rparr>"

text \<open>A result of none inside the outer option is the \<^verbatim>\<open>None\<close> of the source.\<close>

definition alloc_frame :: "frame_allocator \<Rightarrow> (usize option \<times> frame_allocator) option" where
  "alloc_frame self =
     (case rev (recycled self) of
        pa # rest \<Rightarrow> Some (Some pa, self\<lparr>recycled := rev rest\<rparr>)
      | [] \<Rightarrow>
          (if current self < fa_top self
           then do {
             c \<leftarrow> addr_add (current self) PAGE_SIZE;
             Some (Some (current self), self\<lparr>current := c\<rparr>)
           }
           else Some (None, self)))"

text \<open>The loop of \<^verbatim>\<open>alloc_frames\<close>, over the \<^verbatim>\<open>alloc_frame\<close> it calls.\<close>

fun alloc_frames_loop ::
  "('s \<Rightarrow> (usize option \<times> 's) option) \<Rightarrow> nat \<Rightarrow> 's \<Rightarrow> (usize list \<times> 's) option" where
  "alloc_frames_loop alloc 0 self = Some ([], self)"
| "alloc_frames_loop alloc (Suc n) self = do {
     (r, self) \<leftarrow> alloc self;
     (case r of
        None \<Rightarrow> Some ([], self)
      | Some frame \<Rightarrow> do {
          (frames, self) \<leftarrow> alloc_frames_loop alloc n self;
          Some (frame # frames, self)
        })
   }"

text \<open>\<^verbatim>\<open>Vec::with_capacity\<close> panics when the capacity in bytes exceeds \<^verbatim>\<open>isize::MAX\<close>; a
  frame descriptor is eight bytes.\<close>

definition alloc_frames ::
  "frame_allocator \<Rightarrow> usize \<Rightarrow> (usize list option \<times> frame_allocator) option" where
  "alloc_frames self count = do {
     _ \<leftarrow> assert_that (unat count * 8 < 2 ^ 63);
     size \<leftarrow> addr_sub (fa_top self) (fa_bottom self);
     available \<leftarrow> uadd (of_nat (length (recycled self))) (size div PAGE_SIZE);
     (if count \<le> available
      then do {
        (frames, self) \<leftarrow> alloc_frames_loop alloc_frame (unat count) self;
        Some (Some frames, self)
      }
      else Some (None, self))
   }"

text \<open>The inner loop of \<^verbatim>\<open>dealloc\<close>; its first argument is the recycled vector from its end.\<close>

fun gc_loop :: "usize list \<Rightarrow> usize \<Rightarrow> (usize list \<times> usize) option" where
  "gc_loop [] new_current = Some ([], new_current)"
| "gc_loop (pa # rest) new_current = do {
     e \<leftarrow> addr_add pa PAGE_SIZE;
     (if e = new_current then gc_loop rest pa else Some (pa # rest, new_current))
   }"

definition dealloc :: "frame_allocator \<Rightarrow> usize \<Rightarrow> frame_allocator option" where
  "dealloc self frame = do {
     _ \<leftarrow> assert_that (fa_bottom self \<le> frame \<and> frame < fa_top self);
     _ \<leftarrow> assert_that (list_all (\<lambda>ppn. ppn \<noteq> frame) (recycled self) \<and> current self \<noteq> frame);
     _ \<leftarrow> assert_that (frame < current self);
     let self = self\<lparr>recycled := sort (recycled self @ [frame])\<rparr>;
     last_end \<leftarrow> addr_add (last (recycled self)) 1;
     (if last_end = current self
      then do {
        (rest, c) \<leftarrow> gc_loop (rev (recycled self)) (current self);
        Some (self\<lparr>recycled := rev rest, current := c\<rparr>)
      }
      else Some self)
   }"

definition alloc_contiguous ::
  "frame_allocator \<Rightarrow> usize \<Rightarrow> (frame_range_desc option \<times> frame_allocator) option" where
  "alloc_contiguous self count = do {
     available \<leftarrow> addr_sub (fa_top self) (current self);
     (if count < available
      then do {
        let start = current self;
        len \<leftarrow> umul count PAGE_SIZE;
        c \<leftarrow> addr_add (current self) len;
        e \<leftarrow> addr_add start len;
        Some (Some \<lparr>range_start = start, range_end = e\<rparr>, self\<lparr>current := c\<rparr>)
      }
      else Some (None, self))
   }"

function dealloc_range_loop :: "usize \<Rightarrow> usize \<Rightarrow> frame_allocator \<Rightarrow> frame_allocator option" where
  "dealloc_range_loop rend cursor self =
     (if cursor < rend
      then do {
        self \<leftarrow> dealloc self cursor;
        cursor' \<leftarrow> addr_add cursor PAGE_SIZE;
        dealloc_range_loop rend cursor' self
      }
      else Some self)"
  by pat_completeness auto
termination
  by (relation "measure (\<lambda>(rend, cursor, _). unat rend - unat cursor)")
     (auto simp: addr_add_def word_less_nat_alt dest: unat_uadd)

declare dealloc_range_loop.simps [simp del]

definition dealloc_range :: "frame_allocator \<Rightarrow> frame_range_desc \<Rightarrow> frame_allocator option" where
  "dealloc_range self rng = dealloc_range_loop (range_end rng) (range_start rng) self"

section \<open>The contract of a frame allocator\<close>

locale frame_allocation =
  fixes alloc :: "'s \<Rightarrow> (usize option \<times> 's) option"
    and free :: "'s \<Rightarrow> usize \<Rightarrow> 's option"
    and invar :: "'s \<Rightarrow> bool"
    and held :: "'s \<Rightarrow> usize set"
    and frames :: "'s \<Rightarrow> usize set"
  assumes alloc_total: "invar s \<Longrightarrow> \<exists>r s'. alloc s = Some (r, s')"
    and alloc_invar: "invar s \<Longrightarrow> alloc s = Some (r, s') \<Longrightarrow> invar s' \<and> frames s' = frames s"
    and alloc_fresh: "invar s \<Longrightarrow> alloc s = Some (Some pa, s') \<Longrightarrow>
          pa \<in> frames s \<and> pa \<notin> held s \<and> held s' = insert pa (held s)"
    and alloc_exhausted: "invar s \<Longrightarrow> alloc s = Some (None, s') \<Longrightarrow> s' = s \<and> held s = frames s"
    and free_held: "invar s \<Longrightarrow> pa \<in> held s \<Longrightarrow>
          \<exists>s'. free s pa = Some s' \<and> invar s' \<and> held s' = held s - {pa} \<and> frames s' = frames s"
    and held_frames: "invar s \<Longrightarrow> held s \<subseteq> frames s"
begin

lemma alloc_frames_loop_spec:
  assumes "invar s"
  shows "\<exists>fs s'. alloc_frames_loop alloc n s = Some (fs, s') \<and> invar s' \<and> frames s' = frames s \<and>
    distinct fs \<and> set fs \<inter> held s = {} \<and> held s' = held s \<union> set fs \<and>
    length fs \<le> n \<and> (length fs < n \<longrightarrow> held s' = frames s)"
  using assms
proof (induction n arbitrary: s)
  case 0
  then show ?case by simp
next
  case (Suc n)
  obtain r s1 where r: "alloc s = Some (r, s1)"
    using alloc_total Suc.prems by blast
  have s1: "invar s1" "frames s1 = frames s"
    using alloc_invar [OF Suc.prems r] by simp_all
  show ?case
  proof (cases r)
    case None
    then show ?thesis
      using r s1 alloc_exhausted [of s s1] Suc.prems by auto
  next
    case (Some pa)
    have pa: "pa \<notin> held s" "held s1 = insert pa (held s)"
      using alloc_fresh [of s pa s1] Suc.prems r Some by auto
    obtain fs s' where "alloc_frames_loop alloc n s1 = Some (fs, s')" "invar s'" "frames s' = frames s1"
      "distinct fs" "set fs \<inter> held s1 = {}" "held s' = held s1 \<union> set fs"
      "length fs \<le> n" "length fs < n \<longrightarrow> held s' = frames s1"
      using Suc.IH [OF s1(1)] by blast
    then show ?thesis
      using r Some pa s1 by auto
  qed
qed

lemma alloc_frames_loop_length:
  assumes "invar s" and "alloc_frames_loop alloc n s = Some (fs, s')"
  shows "length fs = min n (card (frames s - held s))"
proof -
  have fs: "distinct fs" "set fs \<inter> held s = {}" "held s' = held s \<union> set fs" "invar s'"
    "frames s' = frames s" "length fs \<le> n" "length fs < n \<longrightarrow> held s' = frames s"
    using alloc_frames_loop_spec [OF assms(1), of n] assms(2) by auto
  have sub: "set fs \<subseteq> frames s - held s"
    using fs held_frames [OF fs(4)] by auto
  then have "length fs \<le> card (frames s - held s)"
    using fs(1) by (metis card_mono distinct_card finite)
  moreover have "length fs < n \<Longrightarrow> set fs = frames s - held s"
    using fs(2,3,7) sub by blast
  ultimately show ?thesis
    using fs(1,6) by (metis distinct_card le_neq_implies_less min.absorb1 min.absorb2 order_refl)
qed

lemma alloc_free:
  assumes "invar s" and "alloc s = Some (Some pa, s')"
  shows "\<exists>s''. free s' pa = Some s'' \<and> invar s'' \<and> held s'' = held s"
  using free_held [of s' pa] alloc_invar [OF assms] alloc_fresh [OF assms] by auto

end

section \<open>The invariant and the abstraction\<close>

definition fa_inv :: "frame_allocator \<Rightarrow> bool" where
  "fa_inv fa \<longleftrightarrow>
     is_page_aligned (fa_top fa) \<and> is_page_aligned (fa_bottom fa) \<and> is_page_aligned (current fa) \<and>
     fa_bottom fa \<le> current fa \<and> current fa \<le> fa_top fa \<and>
     distinct (recycled fa) \<and> sorted (recycled fa) \<and>
     (\<forall>pa \<in> set (recycled fa). is_page_aligned pa \<and> fa_bottom fa \<le> pa \<and> pa < current fa)"

definition fa_frames :: "frame_allocator \<Rightarrow> usize set" where
  "fa_frames fa = {pa. is_page_aligned pa \<and> fa_bottom fa \<le> pa \<and> pa < fa_top fa}"

definition allocated :: "frame_allocator \<Rightarrow> usize set" where
  "allocated fa =
     {pa. is_page_aligned pa \<and> fa_bottom fa \<le> pa \<and> pa < current fa \<and> pa \<notin> set (recycled fa)}"

lemma aligned_less_nat: "a mod k = 0 \<Longrightarrow> b mod k = 0 \<Longrightarrow> a < b \<Longrightarrow> a + k \<le> b"
  for a b k :: nat
  by (metis add_diff_inverse_nat add_le_cancel_left dvd_imp_le less_or_eq_imp_le mod_0_imp_dvd
      dvd_diff_nat not_less zero_less_diff)

lemma page_aligned_less:
  "is_page_aligned a \<Longrightarrow> is_page_aligned b \<Longrightarrow> a < b \<Longrightarrow> unat a + 4096 \<le> unat b"
  by (auto simp: is_page_aligned_unat word_less_nat_alt intro: aligned_less_nat)

lemma addr_add_page:
  assumes "is_page_aligned a" "is_page_aligned b" "a < b"
  obtains c where "addr_add a PAGE_SIZE = Some c" "unat c = unat a + 4096" "is_page_aligned c" "c \<le> b"
proof -
  have le: "unat a + 4096 \<le> unat b" using assms by (rule page_aligned_less)
  then have "unat a + 4096 < 2 ^ 64" using unat_lt_u64 [of b] by simp
  then have c: "addr_add a PAGE_SIZE = Some (a + PAGE_SIZE)"
    by (simp add: addr_add_def uadd_def)
  then have u: "unat (a + PAGE_SIZE) = unat a + 4096"
    using unat_uadd [of a PAGE_SIZE] by (simp add: addr_add_def)
  show ?thesis
    using that [OF c u] assms(1) le u by (simp add: is_page_aligned_unat word_le_nat_alt)
qed

lemma fa_inv_new: 
  "is_page_aligned t \<Longrightarrow> is_page_aligned b \<Longrightarrow> b \<le> t \<Longrightarrow> fa_inv (fa_new t b) \<and> allocated (fa_new t b) = {}"
  by (auto simp: fa_inv_def fa_new_def allocated_def)

lemma alloc_frame_cases:
  assumes "fa_inv fa"
  obtains (recycled) pa where "alloc_frame fa = Some (Some pa, fa\<lparr>recycled := butlast (recycled fa)\<rparr>)"
      "recycled fa \<noteq> []" "pa = last (recycled fa)"
    | (bump) c where "recycled fa = []" "current fa < fa_top fa" "unat c = unat (current fa) + 4096"
      "is_page_aligned c" "c \<le> fa_top fa"
      "alloc_frame fa = Some (Some (current fa), fa\<lparr>current := c\<rparr>)"
    | (exhausted) "recycled fa = []" "current fa = fa_top fa" "alloc_frame fa = Some (None, fa)"
proof (cases "recycled fa" rule: rev_cases)
  case (snoc xs x)
  then show ?thesis using recycled by (simp add: alloc_frame_def)
next
  case Nil
  show ?thesis
  proof (cases "current fa < fa_top fa")
    case True
    obtain c where "addr_add (current fa) PAGE_SIZE = Some c" "unat c = unat (current fa) + 4096"
      "is_page_aligned c" "c \<le> fa_top fa"
      using addr_add_page [of "current fa" "fa_top fa"] True assms by (auto simp: fa_inv_def)
    then show ?thesis using bump Nil True by (simp add: alloc_frame_def)
  next
    case False
    then show ?thesis using exhausted Nil assms by (auto simp: alloc_frame_def fa_inv_def)
  qed
qed


lemma alloc_frame_inv:
  assumes "fa_inv fa" and "alloc_frame fa = Some (r, fa')"
  shows "fa_inv fa' \<and> fa_frames fa' = fa_frames fa"
  using assms(1)
proof (cases rule: alloc_frame_cases)
  case (recycled pa)
  moreover have "distinct (butlast (recycled fa)) \<and> sorted (butlast (recycled fa)) \<and>
      set (butlast (recycled fa)) \<subseteq> set (recycled fa)"
    using assms(1) by (auto simp: fa_inv_def distinct_butlast sorted_butlast dest: in_set_butlastD)
  ultimately show ?thesis
    using assms by (auto simp: fa_inv_def fa_frames_def)
next
  case (bump c)
  then show ?thesis
    using assms by (auto simp: fa_inv_def fa_frames_def word_le_nat_alt)
next
  case exhausted
  then show ?thesis using assms by simp
qed

lemma page_aligned_less_next:
  assumes "is_page_aligned pa" "is_page_aligned cur" "unat c = unat cur + 4096"
  shows "pa < c \<longleftrightarrow> pa = cur \<or> pa < cur"
proof -
  have "pa < c \<Longrightarrow> \<not> pa < cur \<Longrightarrow> pa = cur"
  proof (rule ccontr)
    assume "pa < c" "\<not> pa < cur" "pa \<noteq> cur"
    then have "unat cur + 4096 \<le> unat pa"
      using page_aligned_less [of cur pa] assms by auto
    with \<open>pa < c\<close> assms(3) show False by (simp add: word_less_nat_alt)
  qed
  then show ?thesis using assms(3) by (auto simp: word_less_nat_alt)
qed

lemma alloc_frame_fresh:
  assumes "fa_inv fa" and "alloc_frame fa = Some (Some pa, fa')"
  shows "pa \<in> fa_frames fa \<and> pa \<notin> allocated fa \<and> allocated fa' = insert pa (allocated fa)"
  using assms(1)
proof (cases rule: alloc_frame_cases)
  case (recycled x)
  then have eq: "pa = last (recycled fa)" "fa' = fa\<lparr>recycled := butlast (recycled fa)\<rparr>"
    using assms(2) by auto
  have set: "set (recycled fa) = insert pa (set (butlast (recycled fa)))"
    and new: "pa \<notin> set (butlast (recycled fa))"
    using recycled(2) assms(1) eq(1)
    by (metis append_butlast_last_id list.simps(15) rotate1.simps(2) set_rotate1,
        metis append_butlast_last_id distinct_append fa_inv_def not_distinct_conv_prefix)
  have pa: "is_page_aligned pa" "fa_bottom fa \<le> pa" "pa < current fa" "current fa \<le> fa_top fa"
    using assms(1) set by (auto simp: fa_inv_def)
  then have "pa < fa_top fa" by simp
  with pa show ?thesis
    using set new by (auto simp: allocated_def fa_frames_def eq(2))
next
  case (bump c)
  then have eq: "pa = current fa" "fa' = fa\<lparr>current := c\<rparr>"
    using assms(2) by auto
  have "is_page_aligned (current fa)" "fa_bottom fa \<le> current fa"
    using assms(1) by (auto simp: fa_inv_def)
  then show ?thesis
    using bump page_aligned_less_next [of _ "current fa" c]
    by (auto simp: allocated_def fa_frames_def eq)
next
  case exhausted
  then show ?thesis using assms by simp
qed

lemma alloc_frame_exhausted:
  assumes "fa_inv fa" and "alloc_frame fa = Some (None, fa')"
  shows "fa' = fa \<and> allocated fa = fa_frames fa"
  using assms(1)
proof (cases rule: alloc_frame_cases)
  case exhausted
  then show ?thesis using assms by (auto simp: allocated_def fa_frames_def)
qed (use assms in auto)

lemma allocated_frames: "fa_inv fa \<Longrightarrow> allocated fa \<subseteq> fa_frames fa"
  by (auto simp: allocated_def fa_frames_def fa_inv_def)

lemma last_sort_mem: "last (sort (xs @ [x])) \<in> set (xs @ [x])"
  by (metis append_is_Nil_conv last_in_set list.distinct(1) set_empty set_sort)

text \<open>The garbage collection of \<^verbatim>\<open>dealloc\<close> never runs: it compares the byte after the last
  recycled frame with the bump pointer, and both are page-aligned.\<close>

lemma dealloc_eq:
  assumes "fa_inv fa" and "pa \<in> allocated fa"
  shows "dealloc fa pa = Some (fa\<lparr>recycled := sort (recycled fa @ [pa])\<rparr>)"
proof -
  let ?l = "last (sort (recycled fa @ [pa]))"
  have pa: "fa_bottom fa \<le> pa" "pa < current fa" "pa < fa_top fa" "pa \<notin> set (recycled fa)"
    using assms by (auto simp: allocated_def fa_inv_def)
  have l: "is_page_aligned ?l" "?l < current fa" "is_page_aligned (current fa)"
    using last_sort_mem [of "recycled fa" pa] assms by (auto simp: fa_inv_def allocated_def)
  then have le: "unat ?l + 4096 \<le> unat (current fa)"
    by (intro page_aligned_less)
  then have "addr_add ?l 1 = Some (?l + 1)" 
    using unat_lt_u64 [of "current fa"] by (simp add: addr_add_def uadd_def)
  moreover from this have "?l + 1 \<noteq> current fa"
    using unat_uadd [of ?l 1] le by (auto simp: addr_add_def)
  ultimately show ?thesis
    using pa by (auto simp: dealloc_def list_all_iff Let_def assert_that_def)
qed

lemma dealloc_inv:
  assumes "fa_inv fa" and "pa \<in> allocated fa"
  shows "\<exists>fa'. dealloc fa pa = Some fa' \<and> fa_inv fa' \<and> allocated fa' = allocated fa - {pa} \<and>
    fa_frames fa' = fa_frames fa"
proof -
  have "fa_inv (fa\<lparr>recycled := sort (recycled fa @ [pa])\<rparr>)"
    using assms by (auto simp: fa_inv_def allocated_def)
  moreover have "allocated (fa\<lparr>recycled := sort (recycled fa @ [pa])\<rparr>) = allocated fa - {pa}"
    by (auto simp: allocated_def)
  ultimately show ?thesis
    using dealloc_eq [OF assms] by (simp add: fa_frames_def)
qed

interpretation fa: frame_allocation alloc_frame dealloc fa_inv allocated fa_frames
proof
  fix s assume "fa_inv s"
  then show "\<exists>r s'. alloc_frame s = Some (r, s')"
    by (cases rule: alloc_frame_cases) auto
next
  fix s r s' assume "fa_inv s" "alloc_frame s = Some (r, s')"
  then show "fa_inv s' \<and> fa_frames s' = fa_frames s" by (rule alloc_frame_inv)
qed (auto simp: alloc_frame_fresh alloc_frame_exhausted dealloc_inv dest: allocated_frames)


lemma dealloc_range_loop_spec:
  assumes "fa_inv fa" "is_page_aligned c" "is_page_aligned e"
    and "\<forall>pa. is_page_aligned pa \<and> c \<le> pa \<and> pa < e \<longrightarrow> pa \<in> allocated fa"
  shows "\<exists>fa'. dealloc_range_loop e c fa = Some fa' \<and> fa_inv fa' \<and>
    allocated fa' = allocated fa - {pa. c \<le> pa \<and> pa < e}"
  using assms
proof (induction e c fa rule: dealloc_range_loop.induct)
  case (1 e c fa)
  show ?case
  proof (cases "c < e")
    case False
    then show ?thesis
      using "1.prems" by (subst dealloc_range_loop.simps) auto
  next
    case True
    obtain fa1 where fa1: "dealloc fa c = Some fa1" "fa_inv fa1" "allocated fa1 = allocated fa - {c}"
      using dealloc_inv [of fa c] "1.prems" True by auto
    obtain c' where c': "addr_add c PAGE_SIZE = Some c'" "unat c' = unat c + 4096" "is_page_aligned c'"
      using addr_add_page [of c e] "1.prems" True by metis
    have less: "pa < c' \<longleftrightarrow> pa = c \<or> pa < c" if "is_page_aligned pa" for pa
      using page_aligned_less_next [of pa c c'] that "1.prems" c' by auto
    have pages: "is_page_aligned pa \<Longrightarrow> c' \<le> pa \<longleftrightarrow> c \<le> pa \<and> pa \<noteq> c" for pa
      using less [of pa] by auto
    obtain fa' where "dealloc_range_loop e c' fa1 = Some fa'" "fa_inv fa'"
      "allocated fa' = allocated fa1 - {pa. c' \<le> pa \<and> pa < e}"
      using "1.IH" [OF True fa1(1) c'(1) fa1(2) c'(3)] "1.prems" fa1(3) pages by auto
    moreover have "allocated fa1 - {pa. c' \<le> pa \<and> pa < e} = allocated fa - {pa. c \<le> pa \<and> pa < e}"
      using fa1(3) pages True by (auto simp: allocated_def)
    ultimately show ?thesis
      using True fa1(1) c'(1) by (subst dealloc_range_loop.simps) simp
  qed
qed

text \<open>C4: allocation is sound and complete. From a well-formed allocator \<^verbatim>\<open>alloc_frame\<close> does
  not panic and keeps the allocator well-formed; a frame it returns lies in the managed range,
  was not allocated before, and is the only change to the set of allocated frames; it returns
  none only when every managed frame is allocated, and then changes nothing.\<close>

theorem alloc_frame_correct:
  assumes "fa_inv fa"
  shows "\<exists>r fa'. alloc_frame fa = Some (r, fa') \<and> fa_inv fa' \<and>
    (case r of
       Some pa \<Rightarrow> pa \<in> fa_frames fa \<and> pa \<notin> allocated fa \<and> allocated fa' = insert pa (allocated fa)
     | None \<Rightarrow> fa' = fa \<and> allocated fa = fa_frames fa)"
proof -
  obtain r fa' where r: "alloc_frame fa = Some (r, fa')"
    using fa.alloc_total [OF assms] by blast
  then show ?thesis
    using fa.alloc_invar [OF assms r] fa.alloc_fresh [OF assms] fa.alloc_exhausted [OF assms]
    by (cases r) auto
qed

theorem alloc_frame_correct_witness:
  "\<exists>r fa'. alloc_frame (fa_new 0x3000 0x1000) = Some (r, fa') \<and> fa_inv fa'"
proof -
  have "fa_inv (fa_new 0x3000 0x1000)"
    using fa_inv_new [of "0x3000" "0x1000"] by (simp add: is_page_aligned_unat)
  from alloc_frame_correct [OF this] show ?thesis by blast
qed

text \<open>C14: deallocation accepts exactly the allocated frames. For a page-aligned address
  \<^verbatim>\<open>dealloc\<close> succeeds if and only if the frame is allocated (a double free, a frame that was
  never handed out and a foreign frame panic); it then only removes the frame from the allocated
  set. The bump pointer never moves back: the collection test of the source compares the last
  recycled address plus one byte with the page-aligned pointer and never succeeds.\<close>

theorem dealloc_correct:
  assumes "fa_inv fa" and "is_page_aligned pa"
  shows "(dealloc fa pa \<noteq> None \<longleftrightarrow> pa \<in> allocated fa) \<and>
    (\<forall>fa'. dealloc fa pa = Some fa' \<longrightarrow>
       fa_inv fa' \<and> allocated fa' = allocated fa - {pa} \<and> current fa' = current fa)"
proof (cases "pa \<in> allocated fa")
  case True
  then show ?thesis
    using dealloc_inv [OF assms(1) True] dealloc_eq [OF assms(1) True] by auto
next
  case False
  then have "dealloc fa pa = None"
    using assms by (auto simp: dealloc_def allocated_def list_all_iff assert_that_def)
  with False show ?thesis by simp
qed

theorem dealloc_correct_witness:
  "let fa = fa_new 0x3000 0x1000; fa1 = snd (the (alloc_frame fa)) in
   0x1000 \<in> allocated fa1 \<and> dealloc fa1 0x1000 \<noteq> None \<and> dealloc fa1 0x2000 = None"
proof -
  let ?fa = "fa_new 0x3000 0x1000"
  have i: "fa_inv ?fa"
    using fa_inv_new [of "0x3000" "0x1000"] by (simp add: is_page_aligned_unat)
  have a: "alloc_frame ?fa = Some (Some 0x1000, ?fa\<lparr>current := 0x2000\<rparr>)"
    by (simp add: alloc_frame_def fa_new_def addr_add_def uadd_def PAGE_SIZE_def)
  then have i1: "fa_inv (?fa\<lparr>current := 0x2000\<rparr>)" "0x1000 \<in> allocated (?fa\<lparr>current := 0x2000\<rparr>)"
    using alloc_frame_inv [OF i a] alloc_frame_fresh [OF i a] by simp_all
  moreover have "0x2000 \<notin> allocated (?fa\<lparr>current := 0x2000\<rparr>)"
    by (simp add: allocated_def)
  ultimately show ?thesis
    using dealloc_correct [OF i1(1), of "0x1000"] dealloc_correct [OF i1(1), of "0x2000"] a
    by (simp add: is_page_aligned_unat Let_def)
qed

text \<open>C23: \<^verbatim>\<open>alloc_frames\<close> grants the requested frames only as far as free frames exist. Its
  availability test counts the whole managed range instead of what is left, so a request can be
  answered with fewer frames than asked for (the trait documents \<^verbatim>\<open>count\<close> frames); the frames
  it grants are distinct and were free.\<close>

theorem alloc_frames_grant:
  assumes "fa_inv fa" and "alloc_frames fa count = Some (Some fs, fa')"
  shows "length fs = min (unat count) (card (fa_frames fa - allocated fa)) \<and>
    distinct fs \<and> set fs \<inter> allocated fa = {} \<and> allocated fa' = allocated fa \<union> set fs \<and> fa_inv fa'"
proof -
  have loop: "alloc_frames_loop alloc_frame (unat count) fa = Some (fs, fa')"
    using assms(2) by (auto simp: alloc_frames_def bind_eq_Some_conv split: if_splits)
  then show ?thesis
    using fa.alloc_frames_loop_length [OF assms(1) loop]
      fa.alloc_frames_loop_spec [OF assms(1), of "unat count"] by auto
qed

theorem alloc_frames_grant_witness:
  "let fa = \<lparr>fa_top = 0x2000, fa_bottom = 0x1000, current = 0x2000, recycled = []\<rparr> in
   alloc_frames fa 1 = Some (Some [], fa) \<and> min 1 (card (fa_frames fa - allocated fa)) = 0"
proof -
  let ?fa = "\<lparr>fa_top = 0x2000, fa_bottom = 0x1000, current = 0x2000, recycled = []\<rparr>"
  have i: "fa_inv ?fa" by (simp add: fa_inv_def is_page_aligned_unat)
  have a: "alloc_frames ?fa 1 = Some (Some [], ?fa)"
    by (simp add: alloc_frames_def alloc_frame_def addr_sub_def usub_def uadd_def PAGE_SIZE_def)
  then show ?thesis using alloc_frames_grant [OF i a] by (simp add: Let_def)
qed



text \<open>C20: \<^verbatim>\<open>dealloc_range\<close> of a page-aligned range whose pages are all allocated returns every
  page of the range and no other.\<close>

theorem dealloc_range_correct:
  assumes "fa_inv fa" "is_page_aligned (range_start rg)" "is_page_aligned (range_end rg)"
    and "{pa. is_page_aligned pa \<and> range_start rg \<le> pa \<and> pa < range_end rg} \<subseteq> allocated fa"
  shows "\<exists>fa'. dealloc_range fa rg = Some fa' \<and> fa_inv fa' \<and>
    allocated fa' = allocated fa - {pa. range_start rg \<le> pa \<and> pa < range_end rg}"
  using dealloc_range_loop_spec [of fa "range_start rg" "range_end rg"] assms
  by (auto simp: dealloc_range_def subset_iff)

theorem dealloc_range_correct_witness:
  "\<exists>fa'. dealloc_range (fa_new 0x3000 0x1000\<lparr>current := 0x3000\<rparr>) \<lparr>range_start = 0x1000, range_end = 0x3000\<rparr>
     = Some fa' \<and> allocated fa' = {}"
proof -
  let ?fa = "fa_new 0x3000 0x1000\<lparr>current := 0x3000\<rparr>" and ?rg = "\<lparr>range_start = 0x1000, range_end = 0x3000\<rparr>"
  have "fa_inv ?fa" by (simp add: fa_inv_def fa_new_def is_page_aligned_unat)
  moreover have "{pa. is_page_aligned pa \<and> range_start ?rg \<le> pa \<and> pa < range_end ?rg} \<subseteq> allocated ?fa"
    by (auto simp: allocated_def fa_new_def)
  ultimately obtain fa' where "dealloc_range ?fa ?rg = Some fa'"
    "allocated fa' = allocated ?fa - {pa. 0x1000 \<le> pa \<and> pa < 0x3000}"
    using dealloc_range_correct [of ?fa ?rg] by (auto simp: is_page_aligned_unat)
  moreover have "allocated ?fa \<subseteq> {pa. 0x1000 \<le> pa \<and> pa < 0x3000}"
    by (auto simp: allocated_def fa_new_def)
  ultimately show ?thesis by auto
qed

end
