(* ===== verification/Page_Table.thy ===== *)
theory Page_Table
  imports Pte Frame_Allocator "HOL-Library.Sublist"
begin

text \<open>
  The native page table (\<^verbatim>\<open>src/libraries/mmu-native/src/pt.rs\<close>), generic over the entry
  format and over the frame allocator as the source is: \<^verbatim>\<open>PageTableNative<Arch, PTE>\<close> takes a
  \<^verbatim>\<open>pt_arch\<close>, and \<^verbatim>\<open>dyn IFrameAllocator\<close> is its \<^verbatim>\<open>alloc_frame\<close> and
  \<^verbatim>\<open>dealloc\<close> on a state of their own.

  Physical memory is the map from the address of an 8-byte cell to its contents; it is what the
  linear window of \<^verbatim>\<open>to_high_virtual\<close> shows. A reference to a table is the physical address
  of the table, a reference to an entry is the address of its cell, and a byte slice of memory is
  its address and length. An operation that can modify the table takes and returns the state (the
  table with the machine), also when it fails, since a failed call keeps the tables it allocated.
\<close>

section \<open>State\<close>

record cross_mapping_window =
  cw_vaddr :: usize
  cw_size :: usize
  cw_mutable :: bool

text \<open>The \<^verbatim>\<open>BTreeSet\<close> of windows, ordered by their address alone, is the ascending list of
  its elements.\<close>

record cross_mapping_allocator =
  cross_base :: usize
  cross_windows :: "cross_mapping_window list"

record page_table_allocation =
  pt_frames :: "usize list"
  cross_mappings :: cross_mapping_allocator

record page_table =
  pt_root :: usize
  allocation :: "page_table_allocation option"

type_synonym memory = "usize \<Rightarrow> u64"

record 'f machine =
  frame_alloc :: 'f
  phys :: memory

type_synonym 'f pt_state = "page_table \<times> 'f machine"

type_synonym 'f allocator = "'f \<Rightarrow> (usize option \<times> 'f) option"

section \<open>Cross-mapping windows\<close>

definition cross_new :: "usize \<Rightarrow> cross_mapping_allocator" where
  "cross_new base = \<lparr>cross_base = base, cross_windows = []\<rparr>"

definition vaddr_range :: "cross_mapping_window \<Rightarrow> addr_range option" where
  "vaddr_range self = ar_from_start_len (cw_vaddr self) (cw_size self)"

text \<open>\<^verbatim>\<open>BTreeSet::insert\<close> keeps the element that is there when the order finds an equal one.\<close>

fun insert_window ::
  "cross_mapping_window \<Rightarrow> cross_mapping_window list \<Rightarrow> cross_mapping_window list" where
  "insert_window w [] = [w]"
| "insert_window w (x # xs) =
     (if cw_vaddr w < cw_vaddr x then w # x # xs
      else if cw_vaddr w = cw_vaddr x then x # xs
      else x # insert_window w xs)"

definition cross_alloc ::
  "cross_mapping_allocator \<Rightarrow> usize \<Rightarrow> bool \<Rightarrow> (usize \<times> cross_mapping_allocator) option" where
  "cross_alloc self sz mutable = do {
     vaddr \<leftarrow> (if cross_windows self = [] then Some (cross_base self)
              else addr_add (cw_vaddr (last (cross_windows self)))
                            (cw_size (last (cross_windows self))));
     let window = \<lparr>cw_vaddr = vaddr, cw_size = sz, cw_mutable = mutable\<rparr>;
     Some (vaddr, self\<lparr>cross_windows := insert_window window (cross_windows self)\<rparr>)
   }"

fun cross_find ::
  "usize \<Rightarrow> cross_mapping_window list \<Rightarrow> cross_mapping_window option option" where
  "cross_find vaddr [] = Some None"
| "cross_find vaddr (w # ws) = do {
     r \<leftarrow> vaddr_range w;
     (if ar_contains r vaddr then Some (Some w) else cross_find vaddr ws)
   }"

definition cross_remove ::
  "cross_mapping_allocator \<Rightarrow> usize \<Rightarrow>
   (cross_mapping_window option \<times> cross_mapping_allocator) option" where
  "cross_remove self vaddr = do {
     target \<leftarrow> cross_find vaddr (cross_windows self);
     Some (target,
       (case target of
          None \<Rightarrow> self
        | Some t \<Rightarrow>
            self\<lparr>cross_windows := filter (\<lambda>w. cw_vaddr w \<noteq> cw_vaddr t) (cross_windows self)\<rparr>))
   }"

section \<open>Walking the tables\<close>

definition NUM_ENTRIES :: usize where "NUM_ENTRIES = 512"

definition p4_index :: "usize \<Rightarrow> usize" where
  "p4_index vaddr = shr vaddr (12 + 27) AND (NUM_ENTRIES - 1)"

definition p3_index :: "usize \<Rightarrow> usize" where
  "p3_index vaddr = shr vaddr (12 + 18) AND (NUM_ENTRIES - 1)"

definition p2_index :: "usize \<Rightarrow> usize" where
  "p2_index vaddr = shr vaddr (12 + 9) AND (NUM_ENTRIES - 1)"

definition p1_index :: "usize \<Rightarrow> usize" where
  "p1_index vaddr = shr vaddr 12 AND (NUM_ENTRIES - 1)"

text \<open>The cell of \<^verbatim>\<open>table[i]\<close>; an entry is eight bytes.\<close>

definition entry_ref :: "usize \<Rightarrow> usize \<Rightarrow> usize" where
  "entry_ref table i = table + 8 * i"

definition raw_table_of :: "usize \<Rightarrow> (usize, PagingError) outcome" where
  "raw_table_of paddr =
     (if \<not> is_page_aligned paddr then Err NotAligned
      else if is_null paddr then Err NotMapped
      else Ok paddr)"

definition get_next_level :: "pt_arch \<Rightarrow> u64 \<Rightarrow> (usize, PagingError) outcome" where
  "get_next_level A e =
     (if \<not> loongarch64 A then
        (if \<not> is_present A e then Err NotMapped
         else if is_huge A e then Err MappedToHugePage
         else raw_table_of (pte_paddr A e))
      else
        (if is_null (pte_paddr A e) then Err NotMapped
         else if is_huge A e then Err MappedToHugePage
         else raw_table_of (pte_paddr A e)))"

definition get_entry_internal ::
  "pt_arch \<Rightarrow> page_table \<Rightarrow> memory \<Rightarrow> usize \<Rightarrow> (usize \<times> PageSize, PagingError) outcome" where
  "get_entry_internal A self mem vaddr =
     obind
       (if LEVELS A = 3 then raw_table_of (pt_root self)
        else if LEVELS A = 4 then
          obind (raw_table_of (pt_root self)) (\<lambda>pt_l4.
          let pt_l4e = entry_ref pt_l4 (p4_index vaddr)
          in get_next_level A (mem pt_l4e))
        else Panic)
     (\<lambda>pt_l3.
       let pt_l3e = entry_ref pt_l3 (p3_index vaddr)
       in if is_huge A (mem pt_l3e) then Ok (pt_l3e, PS_1G)
       else obind (get_next_level A (mem pt_l3e)) (\<lambda>pt_l2.
       let pt_l2e = entry_ref pt_l2 (p2_index vaddr)
       in if is_huge A (mem pt_l2e) then Ok (pt_l2e, PS_2M)
       else obind (get_next_level A (mem pt_l2e)) (\<lambda>pt_l1.
       let pt_l1e = entry_ref pt_l1 (p1_index vaddr)
       in Ok (pt_l1e, PS_4K))))"

definition get_entry ::
  "pt_arch \<Rightarrow> page_table \<Rightarrow> memory \<Rightarrow> usize \<Rightarrow> (usize \<times> PageSize, PagingError) outcome" where
  "get_entry A self mem vaddr = get_entry_internal A self mem vaddr"

definition ensure_can_modify :: "page_table \<Rightarrow> (page_table_allocation, PagingError) outcome" where
  "ensure_can_modify self =
     (case allocation self of None \<Rightarrow> Err CanNotModify | Some al \<Rightarrow> Ok al)"

definition get_entry_mut ::
  "pt_arch \<Rightarrow> page_table \<Rightarrow> memory \<Rightarrow> usize \<Rightarrow> (usize \<times> PageSize, PagingError) outcome" where
  "get_entry_mut A self mem vaddr =
     obind (ensure_can_modify self) (\<lambda>_. get_entry_internal A self mem vaddr)"

definition get_create_next_level ::
  "pt_arch \<Rightarrow> 'f allocator \<Rightarrow> usize \<Rightarrow> 'f pt_state \<Rightarrow> (usize, PagingError) outcome \<times> 'f pt_state" where
  "get_create_next_level A alloc entry = (\<lambda>(self, m).
     case ensure_can_modify self of
       Panic \<Rightarrow> (Panic, self, m)
     | Err e \<Rightarrow> (Err e, self, m)
     | Ok al \<Rightarrow>
         (if is_empty A (phys m entry) then
            (case alloc (frame_alloc m) of
               None \<Rightarrow> (Panic, self, m)
             | Some (None, fa) \<Rightarrow> (Err OutOfMemory, self, m\<lparr>frame_alloc := fa\<rparr>)
             | Some (Some paddr, fa) \<Rightarrow>
                 (raw_table_of paddr,
                  self\<lparr>allocation := Some (al\<lparr>pt_frames := pt_frames al @ [paddr]\<rparr>)\<rparr>,
                  m\<lparr>frame_alloc := fa, phys := (phys m)(entry := new_table A paddr)\<rparr>))
          else (get_next_level A (phys m entry), self, m)))"

definition get_create_entry ::
  "pt_arch \<Rightarrow> 'f allocator \<Rightarrow> usize \<Rightarrow> PageSize \<Rightarrow> 'f pt_state \<Rightarrow>
   (usize, PagingError) outcome \<times> 'f pt_state" where
  "get_create_entry A alloc vaddr sz = (\<lambda>(self, m).
     sbind (obind (ensure_can_modify self) (\<lambda>_. Ok ()), self, m) (\<lambda>_ (self, m).
     if \<not> is_page_aligned vaddr then (Err NotAligned, self, m)
     else sbind
       (if LEVELS A = 3 then (raw_table_of (pt_root self), self, m)
        else if LEVELS A = 4 then
          sbind (raw_table_of (pt_root self), self, m) (\<lambda>pt_l4 st.
          let pt_l4e = entry_ref pt_l4 (p4_index vaddr)
          in get_create_next_level A alloc pt_l4e st)
        else (Panic, self, m))
     (\<lambda>pt_l3 st.
       let pt_l3e = entry_ref pt_l3 (p3_index vaddr)
       in if sz = PS_1G then (Ok pt_l3e, st)
       else sbind (get_create_next_level A alloc pt_l3e st) (\<lambda>pt_l2 st.
       let pt_l2e = entry_ref pt_l2 (p2_index vaddr)
       in if sz = PS_2M then (Ok pt_l2e, st)
       else sbind (get_create_next_level A alloc pt_l2e st) (\<lambda>p1 st.
       let p1e = entry_ref p1 (p1_index vaddr)
       in (Ok p1e, st))))))"

section \<open>The operations of \<^verbatim>\<open>IMMU\<close>\<close>

text \<open>Writing through a reference to an entry.\<close>

definition write_entry :: "usize \<Rightarrow> u64 \<Rightarrow> 'f pt_state \<Rightarrow> 'f pt_state" where
  "write_entry entry v = (\<lambda>(self, m). (self, m\<lparr>phys := (phys m)(entry := v)\<rparr>))"

definition map_single ::
  "pt_arch \<Rightarrow> 'f allocator \<Rightarrow> usize \<Rightarrow> usize \<Rightarrow> PageSize \<Rightarrow> usize \<Rightarrow> 'f pt_state \<Rightarrow>
   (unit, PagingError) outcome \<times> 'f pt_state" where
  "map_single A alloc vaddr target sz flags st =
     (if \<not> is_page_aligned target then (Err NotAligned, st)
      else sbind (get_create_entry A alloc vaddr sz st) (\<lambda>entry st.
        if \<not> is_empty A (phys (snd st) entry) then (Err AlreadyMapped, st)
        else (case page_down target of
                None \<Rightarrow> (Panic, st)
              | Some t \<Rightarrow> (Ok (), write_entry entry (new_page A t flags (sz \<noteq> PS_4K)) st))))"

definition remap_single ::
  "pt_arch \<Rightarrow> usize \<Rightarrow> usize \<Rightarrow> usize \<Rightarrow> 'f pt_state \<Rightarrow>
   (PageSize, PagingError) outcome \<times> 'f pt_state" where
  "remap_single A vaddr new_target flags st =
     (if \<not> is_page_aligned new_target then (Err NotAligned, st)
      else sbind (get_entry_mut A (fst st) (phys (snd st)) vaddr, st) (\<lambda>(entry, sz) st.
        let st = write_entry entry (set_paddr A (phys (snd st) entry) new_target) st;
            st = write_entry entry (set_flags A (phys (snd st) entry) flags (sz \<noteq> PS_4K)) st
        in (Ok sz, st)))"

definition unmap_single ::
  "pt_arch \<Rightarrow> usize \<Rightarrow> 'f pt_state \<Rightarrow> (usize \<times> PageSize, PagingError) outcome \<times> 'f pt_state" where
  "unmap_single A vaddr st =
     sbind (get_entry_mut A (fst st) (phys (snd st)) vaddr, st) (\<lambda>(entry, sz) st.
       let e = phys (snd st) entry
       in if \<not> is_present A e then (Err NotMapped, write_entry entry (pte_clear A e) st)
       else let paddr = pte_paddr A e
            in (Ok (paddr, sz), write_entry entry (pte_clear A e) st))"

definition query_virtual ::
  "pt_arch \<Rightarrow> page_table \<Rightarrow> memory \<Rightarrow> usize \<Rightarrow> (usize \<times> usize \<times> PageSize, PagingError) outcome" where
  "query_virtual A self mem vaddr =
     obind (of_opt (page_down vaddr)) (\<lambda>va.
     obind (get_entry A self mem va) (\<lambda>(entry, sz).
     let e = mem entry
     in if is_empty A e then Err NotMapped
     else obind (of_opt (usub (as_usize sz) 1)) (\<lambda>msk.
     let offset = vaddr AND msk
     in Ok (pte_paddr A e OR offset, pte_flags A e, sz))))"

definition create_or_update_single ::
  "pt_arch \<Rightarrow> 'f allocator \<Rightarrow> usize \<Rightarrow> PageSize \<Rightarrow> usize option \<Rightarrow> usize option \<Rightarrow> 'f pt_state \<Rightarrow>
   (unit, PagingError) outcome \<times> 'f pt_state" where
  "create_or_update_single A alloc vaddr sz paddr flags st =
     sbind (get_create_entry A alloc vaddr sz st) (\<lambda>entry st.
       let st = (case paddr of
                   Some paddr \<Rightarrow> write_entry entry (set_paddr A (phys (snd st) entry) paddr) st
                 | None \<Rightarrow> st);
           st = (case flags of
                   Some flags \<Rightarrow>
                     write_entry entry (set_flags A (phys (snd st) entry) flags (sz \<noteq> PS_4K)) st
                 | None \<Rightarrow> st)
       in (Ok (), st))"

definition platform_payload :: "page_table \<Rightarrow> usize" where
  "platform_payload self = pt_root self"

section \<open>Construction and release\<close>

definition pt_from_borrowed :: "usize \<Rightarrow> page_table" where
  "pt_from_borrowed root = \<lparr>pt_root = root, allocation = None\<rparr>"

text \<open>The second argument says whether an allocator is passed.\<close>

definition pt_new :: "usize \<Rightarrow> bool \<Rightarrow> page_table" where
  "pt_new root allocator =
     (if \<not> allocator then pt_from_borrowed root
      else \<lparr>pt_root = root,
             allocation = Some \<lparr>pt_frames = [], cross_mappings = cross_new null_addr\<rparr>\<rparr>)"

definition pt_alloc :: "'f allocator \<Rightarrow> 'f machine \<Rightarrow> (page_table \<times> 'f machine) option" where
  "pt_alloc alloc m = do {
     (r, fa) \<leftarrow> alloc (frame_alloc m);
     frame \<leftarrow> r;
     let pt = pt_from_borrowed frame;
     Some (pt\<lparr>allocation := Some \<lparr>pt_frames = [frame], cross_mappings = cross_new null_addr\<rparr>\<rparr>,
           m\<lparr>frame_alloc := fa\<rparr>)
   }"

text \<open>\<^verbatim>\<open>Drop for PageTableAllocation\<close>: the frames are popped from the end and returned.\<close>

fun pt_drop_loop :: "('f \<Rightarrow> usize \<Rightarrow> 'f option) \<Rightarrow> usize list \<Rightarrow> 'f \<Rightarrow> 'f option" where
  "pt_drop_loop free [] fa = Some fa"
| "pt_drop_loop free (frame # rest) fa = do {
     fa \<leftarrow> free fa frame;
     pt_drop_loop free rest fa
   }"

definition pt_drop ::
  "('f \<Rightarrow> usize \<Rightarrow> 'f option) \<Rightarrow> page_table \<Rightarrow> 'f machine \<Rightarrow> 'f machine option" where
  "pt_drop free self m =
     (case allocation self of
        None \<Rightarrow> Some m
      | Some al \<Rightarrow> do {
          fa \<leftarrow> pt_drop_loop free (rev (pt_frames al)) (frame_alloc m);
          Some (m\<lparr>frame_alloc := fa\<rparr>)
        })"

section \<open>Paths through the tables\<close>

text \<open>The proofs follow a walk by the list of its indices, from the root down. A table is reached
  from the root by a path of at most one index less than there are levels.\<close>

definition next_table :: "pt_arch \<Rightarrow> u64 \<Rightarrow> usize option" where
  "next_table A e = (case get_next_level A e of Ok t \<Rightarrow> Some t | _ \<Rightarrow> None)"

fun resolve :: "pt_arch \<Rightarrow> memory \<Rightarrow> usize \<Rightarrow> usize list \<Rightarrow> usize option" where
  "resolve A mem t [] = Some t"
| "resolve A mem t (i # is) = do { t' \<leftarrow> next_table A (mem (entry_ref t i)); resolve A mem t' is }"

fun walk :: "pt_arch \<Rightarrow> memory \<Rightarrow> usize \<Rightarrow> usize list \<Rightarrow> (usize \<times> nat, PagingError) outcome" where
  "walk A mem t [] = Panic"
| "walk A mem t [i] = Ok (entry_ref t i, 1)"
| "walk A mem t (i # j # is) =
     (if length is + 2 \<le> 3 \<and> is_huge A (mem (entry_ref t i))
      then Ok (entry_ref t i, length is + 2)
      else obind (get_next_level A (mem (entry_ref t i))) (\<lambda>t'. walk A mem t' (j # is)))"

text \<open>What a walk finds: the entry and its level.\<close>

definition lookup :: "pt_arch \<Rightarrow> memory \<Rightarrow> usize \<Rightarrow> usize list \<Rightarrow> (u64 \<times> nat, PagingError) outcome" where
  "lookup A mem t is = obind (walk A mem t is) (\<lambda>(s, l). if mem s = 0 then Err NotMapped else Ok (mem s, l))"

fun create_walk ::
  "pt_arch \<Rightarrow> 'f allocator \<Rightarrow> usize \<Rightarrow> usize list \<Rightarrow> 'f pt_state \<Rightarrow>
   (usize, PagingError) outcome \<times> 'f pt_state" where
  "create_walk A alloc t [] st = (Panic, st)"
| "create_walk A alloc t [i] st = (Ok (entry_ref t i), st)"
| "create_walk A alloc t (i # j # is) st =
     sbind (get_create_next_level A alloc (entry_ref t i) st) (\<lambda>t' st. create_walk A alloc t' (j # is) st)"

definition indices :: "pt_arch \<Rightarrow> usize \<Rightarrow> usize list" where
  "indices A va =
     (if LEVELS A = 4 then [p4_index va, p3_index va, p2_index va, p1_index va]
      else [p3_index va, p2_index va, p1_index va])"

definition level_size :: "nat \<Rightarrow> PageSize" where
  "level_size n = (if n = 3 then PS_1G else if n = 2 then PS_2M else PS_4K)"

fun size_level :: "PageSize \<Rightarrow> nat" where
  "size_level PS_1G = 3" | "size_level PS_2M = 2" | "size_level _ = 1"

lemma level_size_simps [simp]:
  "level_size 1 = PS_4K" "level_size (Suc 0) = PS_4K" "level_size 2 = PS_2M" "level_size 3 = PS_1G"
  by (simp_all add: level_size_def)

definition valid_path :: "usize list \<Rightarrow> bool" where
  "valid_path p \<longleftrightarrow> (\<forall>i\<in>set p. i < 512)"

lemma valid_path_simps [simp]:
  "valid_path []" "valid_path (i # p) \<longleftrightarrow> i < 512 \<and> valid_path p"
  "valid_path (p @ q) \<longleftrightarrow> valid_path p \<and> valid_path q"
  by (auto simp: valid_path_def)

lemma valid_path_take [simp]: "valid_path p \<Longrightarrow> valid_path (take n p)"
  by (auto simp: valid_path_def dest: in_set_takeD)

lemma index_less: "(x :: usize) AND (NUM_ENTRIES - 1) < 512"
proof -
  have "unat (take_bit 9 x) < 512"
    using take_bit_nat_less_exp [of 9 "unat x"] by (simp add: unsigned_take_bit_eq)
  then have "take_bit 9 x < 512" by (simp add: word_less_nat_alt)
  then show ?thesis by (simp add: NUM_ENTRIES_def take_bit_eq_mask mask_eq_exp_minus_1)
qed

lemma indices_valid [simp]: "valid_path (indices A va)"
  by (simp add: indices_def p4_index_def p3_index_def p2_index_def p1_index_def index_less)

lemma entry_ref_unat:
  assumes "is_page_aligned t" "i < 512"
  shows "unat (entry_ref t i) = unat t + 8 * unat i"
proof -
  have i: "unat i < 512" using assms(2) by (simp add: word_less_nat_alt)
  have "unat t mod 4096 = 0" using assms(1) by (simp add: is_page_aligned_unat)
  then have "unat t + 4096 \<le> 18446744073709551616"
    using unat_lt_u64 [of t] aligned_less_nat [of "unat t" 4096 18446744073709551616] by simp
  then show ?thesis
    using i unat_mult_lem [of 8 i] unat_add_lem [of t "8 * i"] by (simp add: entry_ref_def)
qed

lemma entry_ref_inj:
  assumes "is_page_aligned t" "is_page_aligned t'" "i < 512" "i' < 512"
    and "entry_ref t i = entry_ref t' i'"
  shows "t = t' \<and> i = i'"
proof -
  have u: "unat i < 512" "unat i' < 512" using assms(3,4) by (simp_all add: word_less_nat_alt)
  have eq: "unat t + 8 * unat i = unat t' + 8 * unat i'"
    using assms entry_ref_unat by metis
  obtain a b where "unat t = 4096 * a" "unat t' = 4096 * b"
    using assms(1,2) by (metis is_page_aligned_unat mod_0_imp_dvd dvdE)
  with eq u have "a = b" by arith
  then have "unat t = unat t'" "unat i = unat i'"
    using eq \<open>unat t = 4096 * a\<close> \<open>unat t' = 4096 * b\<close> by simp_all
  then show ?thesis by (simp add: word_unat_eq_iff)
qed

lemma resolve_append:
  "resolve A mem t (p @ q) = do { t' \<leftarrow> resolve A mem t p; resolve A mem t' q }"
  by (induction p arbitrary: t) (auto split: bind_splits)

lemma next_table_aligned: "next_table A e = Some t \<Longrightarrow> is_page_aligned t \<and> t \<noteq> 0"
  by (auto simp: next_table_def get_next_level_def raw_table_of_def is_null_def
      split: outcome.splits if_splits)

lemma resolve_aligned:
  "is_page_aligned r \<Longrightarrow> resolve A mem r p = Some t \<Longrightarrow> is_page_aligned t"
  by (induction p arbitrary: r) (auto simp: bind_eq_Some_conv dest: next_table_aligned)

text \<open>The cells a walk reads.\<close>

fun reads :: "pt_arch \<Rightarrow> memory \<Rightarrow> usize \<Rightarrow> usize list \<Rightarrow> usize set" where
  "reads A mem t [] = {}"
| "reads A mem t (i # is) =
     insert (entry_ref t i)
       (case next_table A (mem (entry_ref t i)) of None \<Rightarrow> {} | Some t' \<Rightarrow> reads A mem t' is)"

lemma reads_resolve:
  "s \<in> reads A mem t is \<Longrightarrow>
   \<exists>n t'. n < length is \<and> resolve A mem t (take n is) = Some t' \<and> s = entry_ref t' (is ! n)"
proof (induction "is" arbitrary: t)
  case (Cons i "is")
  show ?case
  proof (cases "s = entry_ref t i")
    case True
    then show ?thesis by (intro exI [of _ 0] exI [of _ t]) simp
  next
    case False
    then obtain t' where t': "next_table A (mem (entry_ref t i)) = Some t'" "s \<in> reads A mem t' is"
      using Cons.prems by (auto split: option.splits)
    then obtain n u where "n < length is" "resolve A mem t' (take n is) = Some u" "s = entry_ref u (is ! n)"
      using Cons.IH by blast
    with t' show ?thesis by (intro exI [of _ "Suc n"] exI [of _ u]) simp
  qed
qed simp

lemma walk_cong:
  "(\<And>s. s \<in> reads A mem t is \<Longrightarrow> mem' s = mem s) \<Longrightarrow> walk A mem' t is = walk A mem t is"
proof (induction A mem t "is" rule: walk.induct)
  case (3 A mem t i j "is")
  show ?case
  proof (cases "get_next_level A (mem (entry_ref t i))")
    case (Ok t')
    then show ?thesis using 3 by (simp add: next_table_def)
  qed (use 3 in simp_all)
qed simp_all

lemma walk_reads: "walk A mem t is = Ok (s, l) \<Longrightarrow> s \<in> reads A mem t is"
proof (induction A mem t "is" rule: walk.induct)
  case (3 A mem t i j "is")
  show ?case
  proof (cases "length is + 2 \<le> 3 \<and> is_huge A (mem (entry_ref t i))")
    case False
    then obtain t' where "get_next_level A (mem (entry_ref t i)) = Ok t'" "walk A mem t' (j # is) = Ok (s, l)"
      using 3 by (auto simp: outcome_simps split: if_splits)
    then show ?thesis using 3(1) False by (simp add: next_table_def)
  qed (use 3 in simp)
qed simp_all

lemma lookup_cong:
  assumes "\<And>s. s \<in> reads A mem t is \<Longrightarrow> mem' s = mem s"
  shows "lookup A mem' t is = lookup A mem t is"
proof (cases "walk A mem t is")
  case (Ok a)
  then show ?thesis
    using walk_cong [OF assms] walk_reads [of A mem t "is"] assms by (cases a) (auto simp: lookup_def)
qed (use walk_cong [OF assms] in \<open>simp_all add: lookup_def\<close>)

lemma walk_through:
  "resolve A mem t p = Some t' \<Longrightarrow> q \<noteq> [] \<Longrightarrow> walk A mem t (p @ q) = walk A mem t' q"
proof (induction p arbitrary: t)
  case (Cons i p)
  then obtain u where u: "next_table A (mem (entry_ref t i)) = Some u" "resolve A mem u p = Some t'"
    by (auto simp: bind_eq_Some_conv)
  obtain j r where jr: "p @ q = j # r" using Cons.prems(2) by (cases "p @ q") auto
  have "get_next_level A (mem (entry_ref t i)) = Ok u"
    using u(1) by (simp add: next_table_def split: outcome.splits)
  moreover from this have "\<not> is_huge A (mem (entry_ref t i))"
    by (auto simp: get_next_level_def split: if_splits)
  ultimately show ?case using Cons.IH [OF u(2) Cons.prems(2)] jr by simp
qed simp


section \<open>The tree invariant\<close>

definition pt_tree :: "pt_arch \<Rightarrow> memory \<Rightarrow> usize \<Rightarrow> usize set \<Rightarrow> bool" where
  "pt_tree A mem r owned \<longleftrightarrow> is_page_aligned r \<and> r \<noteq> 0 \<and>
     (\<forall>p t. valid_path p \<longrightarrow> length p < LEVELS A \<longrightarrow> resolve A mem r p = Some t \<longrightarrow> t \<in> owned) \<and>
     (\<forall>p q t. valid_path p \<longrightarrow> valid_path q \<longrightarrow> length p < LEVELS A \<longrightarrow> length q < LEVELS A \<longrightarrow>
        resolve A mem r p = Some t \<longrightarrow> resolve A mem r q = Some t \<longrightarrow> p = q)"

lemma pt_treeD:
  assumes "pt_tree A mem r own"
  shows "is_page_aligned r" "r \<noteq> 0"
    "valid_path p \<Longrightarrow> length p < LEVELS A \<Longrightarrow> resolve A mem r p = Some t \<Longrightarrow> t \<in> own"
    "valid_path p \<Longrightarrow> valid_path q \<Longrightarrow> length p < LEVELS A \<Longrightarrow> length q < LEVELS A \<Longrightarrow>
      resolve A mem r p = Some t \<Longrightarrow> resolve A mem r q = Some t \<Longrightarrow> p = q"
  using assms unfolding pt_tree_def by blast+

lemma pt_tree_slot:
  assumes tree: "pt_tree A mem r own"
    and p: "valid_path p" "length p < LEVELS A" "resolve A mem r p = Some t" "i < 512"
    and q: "valid_path q" "length q < LEVELS A" "resolve A mem r q = Some u" "j < 512"
    and "entry_ref u j = entry_ref t i"
  shows "q = p \<and> j = i"
proof -
  have "is_page_aligned t" "is_page_aligned u"
    using resolve_aligned pt_treeD(1) [OF tree] p(3) q(3) by blast+
  then have "u = t \<and> j = i" using entry_ref_inj p(4) q(4) assms(10) by metis
  then show ?thesis using pt_treeD(4) [OF tree] p q by metis
qed

text \<open>A write to the entry \<^verbatim>\<open>i\<close> of the table at \<^verbatim>\<open>p\<close> is seen only through that entry.\<close>

lemma resolve_update:
  assumes tree: "pt_tree A mem r own"
    and p: "valid_path p" "length p < LEVELS A" "resolve A mem r p = Some t" "i < 512"
    and upd: "\<And>s. s \<noteq> entry_ref t i \<Longrightarrow> mem' s = mem s"
  shows "valid_path q \<Longrightarrow> length q < LEVELS A \<Longrightarrow> \<not> prefix (p @ [i]) q \<Longrightarrow>
    resolve A mem' r q = resolve A mem r q"
proof (induction q rule: rev_induct)
  case (snoc j q)
  have IH: "resolve A mem' r q = resolve A mem r q"
    using snoc by (intro snoc.IH) auto
  show ?case
  proof (cases "resolve A mem r q")
    case (Some u)
    have "mem' (entry_ref u j) = mem (entry_ref u j)"
      using pt_tree_slot [OF tree p _ _ Some, of j] snoc.prems by (intro upd) auto
    then show ?thesis using IH Some by (simp add: resolve_append)
  qed (use IH in \<open>simp add: resolve_append\<close>)
qed simp

lemma resolve_update_self:
  assumes "pt_tree A mem r own"
    and "valid_path p" "length p < LEVELS A" "resolve A mem r p = Some t" "i < 512"
    and "\<And>s. s \<noteq> entry_ref t i \<Longrightarrow> mem' s = mem s"
  shows "resolve A mem' r p = Some t"
  using resolve_update [OF assms, of p] assms(2-4) by (auto simp: prefix_def)

lemma reads_update:
  assumes tree: "pt_tree A mem r own"
    and p: "valid_path p" "length p < LEVELS A" "resolve A mem r p = Some t" "i < 512"
    and q: "valid_path q" "length q \<le> LEVELS A" "\<not> prefix (p @ [i]) q"
  shows "entry_ref t i \<notin> reads A mem r q"
proof
  assume "entry_ref t i \<in> reads A mem r q"
  then obtain n u where n: "n < length q" "resolve A mem r (take n q) = Some u"
      "entry_ref u (q ! n) = entry_ref t i"
    using reads_resolve by metis
  have "q ! n < 512" using q(1) n(1) by (auto simp: valid_path_def)
  then have "take n q = p \<and> q ! n = i"
    using pt_tree_slot [OF tree p, of "take n q" u "q ! n"] q n by simp
  then have "take (Suc n) q = p @ [i]" using n(1) by (simp add: take_Suc_conv_app_nth)
  then show False using q(3) by (metis take_is_prefix)
qed

lemma lookup_update_other:
  assumes tree: "pt_tree A mem r own"
    and p: "valid_path p" "length p < LEVELS A" "resolve A mem r p = Some t" "i < 512"
    and upd: "\<And>s. s \<noteq> entry_ref t i \<Longrightarrow> mem' s = mem s"
    and q: "valid_path q" "length q \<le> LEVELS A" "\<not> prefix (p @ [i]) q"
  shows "lookup A mem' r q = lookup A mem r q"
  by (rule lookup_cong) (metis reads_update [OF tree p q] upd)

lemma walk_update_through:
  assumes tree: "pt_tree A mem r own"
    and p: "valid_path p" "length p < LEVELS A" "resolve A mem r p = Some t" "i < 512"
    and upd: "\<And>s. s \<noteq> entry_ref t i \<Longrightarrow> mem' s = mem s"
  shows "walk A mem' r (p @ i # rest) = walk A mem' t (i # rest)"
  by (rule walk_through [OF resolve_update_self [OF assms]]) simp_all

lemma pt_tree_update_leaf:
  assumes tree: "pt_tree A mem r own"
    and p: "valid_path p" "length p < LEVELS A" "resolve A mem r p = Some t" "i < 512"
    and upd: "\<And>s. s \<noteq> entry_ref t i \<Longrightarrow> mem' s = mem s"
    and last: "length p + 1 = LEVELS A \<or> next_table A (mem' (entry_ref t i)) = None"
  shows "pt_tree A mem' r own"
proof -
  have old: "resolve A mem r q = Some u"
    if q: "valid_path q" "length q < LEVELS A" "resolve A mem' r q = Some u" for q u
  proof (cases "prefix (p @ [i]) q")
    case True
    then obtain rest where rest: "q = p @ i # rest" by (auto simp: prefix_def)
    then have "next_table A (mem' (entry_ref t i)) \<noteq> None"
      using q(3) resolve_update_self [OF tree p upd] by (auto simp: resolve_append bind_eq_Some_conv)
    then show ?thesis using last q(2) rest by auto
  next
    case False
    then show ?thesis using resolve_update [OF tree p upd q(1,2)] q(3) by simp
  qed
  show ?thesis
    unfolding pt_tree_def
    using pt_treeD [OF tree] old by blast
qed

lemma pt_tree_update_table:
  assumes tree: "pt_tree A mem r own"
    and p: "valid_path p" "length p < LEVELS A" "resolve A mem r p = Some t" "i < 512"
    and upd: "\<And>s. s \<noteq> entry_ref t i \<Longrightarrow> mem' s = mem s"
    and new: "next_table A (mem' (entry_ref t i)) = Some f" "f \<notin> own"
    and empty: "\<And>j. j < 512 \<Longrightarrow> next_table A (mem' (entry_ref f j)) = None"
  shows "pt_tree A mem' r (insert f own)"
proof -
  have old: "resolve A mem r q = Some u \<and> \<not> prefix (p @ [i]) q \<or> q = p @ [i] \<and> u = f"
    if q: "valid_path q" "length q < LEVELS A" "resolve A mem' r q = Some u" for q u
  proof (cases "prefix (p @ [i]) q")
    case True
    then obtain rest where rest: "q = p @ i # rest" by (auto simp: prefix_def)
    then have res: "resolve A mem' f rest = Some u"
      using q(3) new(1) resolve_update_self [OF tree p upd] by (auto simp: resolve_append)
    have "rest = []"
      using res empty rest q(1) by (cases rest) (auto simp: bind_eq_Some_conv)
    then show ?thesis using res rest by simp
  next
    case False
    then show ?thesis using resolve_update [OF tree p upd q(1,2)] q(3) by simp
  qed
  show ?thesis
    unfolding pt_tree_def
  proof (intro conjI allI impI)
    fix q u assume "valid_path q" "length q < LEVELS A" "resolve A mem' r q = Some u"
    then show "u \<in> insert f own" using old pt_treeD(3) [OF tree] by blast
  next
    fix q q' u assume "valid_path q" "valid_path q'" "length q < LEVELS A" "length q' < LEVELS A"
      "resolve A mem' r q = Some u" "resolve A mem' r q' = Some u"
    then show "q = q'" using old pt_treeD(3,4) [OF tree] new(2) by metis
  qed (use pt_treeD [OF tree] in auto)
qed

section \<open>Paging over an entry format and a frame allocator\<close>

text \<open>The state invariant: the allocator is well-formed and manages usable memory, the table owns
  its frames, every frame that is not handed out is zero, and the tables form a tree of owned
  frames.\<close>

definition owned_list :: "page_table \<Rightarrow> usize list" where
  "owned_list self = (case allocation self of None \<Rightarrow> [] | Some al \<Rightarrow> pt_frames al)"

definition owned :: "page_table \<Rightarrow> usize set" where
  "owned self = set (owned_list self)"

definition clean :: "memory \<Rightarrow> usize set \<Rightarrow> bool" where
  "clean mem fs \<longleftrightarrow> (\<forall>f\<in>fs. \<forall>i<512. mem (entry_ref f i) = 0)"

definition pt_inv ::
  "pt_arch \<Rightarrow> ('f \<Rightarrow> bool) \<Rightarrow> ('f \<Rightarrow> usize set) \<Rightarrow> ('f \<Rightarrow> usize set) \<Rightarrow> 'f pt_state \<Rightarrow> bool" where
  "pt_inv A invar held frames = (\<lambda>(self, m).
     invar (frame_alloc m) \<and>
     (\<forall>f\<in>frames (frame_alloc m). is_page_aligned f \<and> f \<noteq> 0 \<and> unat f < 2 ^ PA_MAX_BITS A) \<and>
     clean (phys m) (frames (frame_alloc m) - held (frame_alloc m)) \<and>
     allocation self \<noteq> None \<and>
     distinct (owned_list self) \<and>
     owned self \<subseteq> held (frame_alloc m) \<and>
     pt_tree A (phys m) (pt_root self) (owned self))"

text \<open>The cells of a frame.\<close>

definition cells :: "usize \<Rightarrow> usize set" where
  "cells f = entry_ref f ` {i. i < 512}"

text \<open>What an operation that only adds tables keeps.\<close>

definition grows ::
  "pt_arch \<Rightarrow> ('f \<Rightarrow> usize set) \<Rightarrow> ('f \<Rightarrow> usize set) \<Rightarrow> 'f pt_state \<Rightarrow> 'f pt_state \<Rightarrow> bool" where
  "grows A held frames = (\<lambda>(self, m) (self', m').
     pt_root self' = pt_root self \<and>
     (\<forall>q. valid_path q \<longrightarrow> length q = LEVELS A \<longrightarrow>
        lookup A (phys m') (pt_root self) q = lookup A (phys m) (pt_root self) q) \<and>
     owned self \<subseteq> owned self' \<and>
     held (frame_alloc m') = held (frame_alloc m) \<union> owned self' \<and>
     frames (frame_alloc m') = frames (frame_alloc m) \<and>
     (\<forall>s. s \<notin> \<Union>(cells ` owned self') \<longrightarrow> phys m' s = phys m s))"

lemma grows_refl: "owned (fst st) \<subseteq> held (frame_alloc (snd st)) \<Longrightarrow> grows A held frames st st"
  by (auto simp: grows_def split: prod.splits)

lemma grows_trans:
  "grows A held frames st st' \<Longrightarrow> grows A held frames st' st'' \<Longrightarrow> grows A held frames st st''"
  by (cases st; cases st'; cases st'') (auto simp: grows_def, metis subsetD)

locale paging = page_table_entry A canon leafable + frame_allocation alloc free invar held frames
  for A :: pt_arch and canon leafable and alloc :: "'f allocator" and free invar held frames +
  assumes frames_aligned: "f \<in> frames s \<Longrightarrow> is_page_aligned f"
begin

lemma get_next_level_0 [simp]: "get_next_level A 0 = Err NotMapped"
  using zero_no_table by (simp add: get_next_level_def is_null_def)

lemma next_table_0 [simp]: "next_table A 0 = None"
  by (simp add: next_table_def)

lemma next_table_huge: "is_huge A e \<Longrightarrow> next_table A e = None"
  by (simp add: next_table_def get_next_level_def)

lemma next_table_new:
  "is_page_aligned f \<Longrightarrow> f \<noteq> 0 \<Longrightarrow> unat f < 2 ^ PA_MAX_BITS A \<Longrightarrow> get_next_level A (new_table A f) = Ok f"
  using table_entry [of f] by (simp add: get_next_level_def is_null_def raw_table_of_def)

lemma lookup_zero_table:
  assumes "\<And>i. i < 512 \<Longrightarrow> mem (entry_ref f i) = 0" "valid_path q" "q \<noteq> []"
  shows "lookup A mem f q = Err NotMapped"
proof -
  obtain i r where q: "q = i # r" using assms(3) by (cases q) auto
  then show ?thesis using assms(1) [of i] assms(2) zero_not_huge
    by (cases r) (simp_all add: lookup_def)
qed

lemma lookup_new_table:
  assumes tree: "pt_tree A mem r own"
    and p: "valid_path p" "length p + 1 < LEVELS A" "resolve A mem r p = Some t" "i < 512"
    and upd: "\<And>s. s \<noteq> entry_ref t i \<Longrightarrow> mem' s = mem s"
    and new: "mem (entry_ref t i) = 0" "get_next_level A (mem' (entry_ref t i)) = Ok f"
    and empty: "\<And>j. j < 512 \<Longrightarrow> mem' (entry_ref f j) = 0"
    and q: "valid_path q" "length q = LEVELS A"
  shows "lookup A mem' r q = lookup A mem r q"
proof (cases "prefix (p @ [i]) q")
  case True
  then obtain j rest where rest: "q = p @ i # j # rest"
    using p(2) q(2) by (auto simp: prefix_def) (metis append.right_neutral length_append_singleton
        length_Cons list.exhaust list.size(3) add.commute plus_1_eq_Suc nat_less_le length_append)
  have p2: "length p < LEVELS A" using p(2) by simp
  have nh: "\<not> is_huge A (mem' (entry_ref t i))"
    using new(2) by (auto simp: get_next_level_def split: if_splits)
  have "lookup A mem r q = Err NotMapped"
    using walk_through [OF p(3), of "i # j # rest"] rest new(1) zero_not_huge by (simp add: lookup_def)
  moreover have "walk A mem' r q = walk A mem' f (j # rest)"
    using walk_update_through [OF tree p(1) p2 p(3,4) upd, of "j # rest"] rest new(2) nh by simp
  then have "lookup A mem' r q = lookup A mem' f (j # rest)" by (simp add: lookup_def)
  moreover have "lookup A mem' f (j # rest) = Err NotMapped"
    using lookup_zero_table [of mem' f] empty q(1) rest by simp
  ultimately show ?thesis by simp
next
  case False
  then show ?thesis using lookup_update_other [OF tree p(1) _ p(3,4) upd q(1)] p(2) q(2) by simp
qed


lemma table_added:
  assumes inv: "pt_inv A invar held frames (self, m)" and al: "allocation self = Some al"
    and p: "valid_path p" "length p + 1 < LEVELS A"
      "resolve A (phys m) (pt_root self) p = Some t" "i < 512"
    and empty: "phys m (entry_ref t i) = 0"
    and x: "alloc (frame_alloc m) = Some (Some f, fa')"
    and m': "m' = m\<lparr>frame_alloc := fa', phys := (phys m)(entry_ref t i := new_table A f)\<rparr>"
    and self': "self' = self\<lparr>allocation := Some (al\<lparr>pt_frames := pt_frames al @ [f]\<rparr>)\<rparr>"
  shows "pt_inv A invar held frames (self', m') \<and> grows A held frames (self, m) (self', m')
    \<and> resolve A (phys m') (pt_root self') (p @ [i]) = Some f \<and> raw_table_of f = Ok f"
proof -
  let ?mem = "(phys m)(entry_ref t i := new_table A f)"
  have fa: "invar (frame_alloc m)"
    and ok: "\<And>f. f \<in> frames (frame_alloc m) \<Longrightarrow> is_page_aligned f \<and> f \<noteq> 0 \<and> unat f < 2 ^ PA_MAX_BITS A"
    and cl: "clean (phys m) (frames (frame_alloc m) - held (frame_alloc m))"
    and ow: "owned self \<subseteq> held (frame_alloc m)"
    and tree: "pt_tree A (phys m) (pt_root self) (owned self)"
    using inv by (auto simp: pt_inv_def)
  have f: "f \<in> frames (frame_alloc m)" "f \<notin> held (frame_alloc m)"
      "held fa' = insert f (held (frame_alloc m))" and fa': "invar fa'" "frames fa' = frames (frame_alloc m)"
    using alloc_fresh [OF fa x] alloc_invar [OF fa x] by auto
  have fok: "is_page_aligned f" "f \<noteq> 0" "unat f < 2 ^ PA_MAX_BITS A" using ok f(1) by auto
  have p2: "length p < LEVELS A" using p(2) by simp
  have t: "t \<in> owned self" "is_page_aligned t"
    using pt_treeD(3) [OF tree p(1) p2 p(3)] resolve_aligned [OF pt_treeD(1) [OF tree] p(3)] by auto
  have disj: "entry_ref g j \<noteq> entry_ref t i"
    if "g \<in> frames (frame_alloc m) - held (frame_alloc m)" "j < 512" for g j
    using entry_ref_inj [OF _ t(2) that(2) p(4), of g] ok that(1) t(1) ow by auto
  have zero: "?mem (entry_ref f j) = 0" if "j < 512" for j
    using disj [of f j] cl f(1,2) that by (simp add: clean_def)
  have next_f: "get_next_level A (?mem (entry_ref t i)) = Ok f" using next_table_new [OF fok] by simp
  have tree': "pt_tree A ?mem (pt_root self) (insert f (owned self))"
    by (rule pt_tree_update_table [OF tree p(1) p2 p(3,4)])
      (use next_f zero f(2) ow in \<open>auto simp: next_table_def\<close>)
  have clean': "clean ?mem (frames fa' - held fa')"
    using cl f fa' disj unfolding clean_def by simp
  have look: "lookup A ?mem (pt_root self) q = lookup A (phys m) (pt_root self) q"
    if "valid_path q" "length q = LEVELS A" for q
    by (rule lookup_new_table [OF tree p, of ?mem f q]) (use empty next_f zero that in auto)
  have "resolve A ?mem (pt_root self) p = Some t"
    by (rule resolve_update_self [OF tree p(1) p2 p(3,4)]) simp
  then have res: "resolve A ?mem (pt_root self) (p @ [i]) = Some f"
    using next_table_new [OF fok] by (simp add: resolve_append next_table_def)
  have own': "owned self' = insert f (owned self)" and lst: "owned_list self' = owned_list self @ [f]"
    using self' al by (simp_all add: owned_def owned_list_def)
  have cell: "entry_ref t i \<in> cells t" using p(4) by (auto simp: cells_def)
  have "pt_inv A invar held frames (self', m')"
    using m' self' fa' ok clean' ow f(2,3) tree' own' lst inv by (auto simp: pt_inv_def owned_def)
  moreover have "grows A held frames (self, m) (self', m')"
    using m' self' own' look f(3) fa' t(1) cell ow by (auto simp: grows_def)
  ultimately show ?thesis using res m' self' fok by (simp add: raw_table_of_def is_null_def)
qed

lemma create_step:
  assumes inv: "pt_inv A invar held frames (self, m)"
    and p: "valid_path p" "length p + 1 < LEVELS A"
      "resolve A (phys m) (pt_root self) p = Some t" "i < 512"
    and step: "get_create_next_level A alloc (entry_ref t i) (self, m) = (r, self', m')"
  shows "pt_inv A invar held frames (self', m') \<and> grows A held frames (self, m) (self', m')
    \<and> r \<noteq> Panic
    \<and> (\<forall>t'. r = Ok t' \<longrightarrow> resolve A (phys m') (pt_root self') (p @ [i]) = Some t')
    \<and> (r = Err OutOfMemory \<longrightarrow> held (frame_alloc m') = frames (frame_alloc m'))"
proof -
  obtain al where al: "allocation self = Some al" and fa: "invar (frame_alloc m)"
    and ow: "owned self \<subseteq> held (frame_alloc m)"
    using inv by (auto simp: pt_inv_def)
  have refl: "grows A held frames (self, m) (self, m)" using grows_refl [of "(self, m)"] ow by simp
  show ?thesis
  proof (cases "phys m (entry_ref t i) = 0")
    case False
    then have "self' = self" "m' = m" "r = get_next_level A (phys m (entry_ref t i))"
      using step al by (auto simp: get_create_next_level_def ensure_can_modify_def empty_iff)
    then show ?thesis
      using inv refl p(3)
      by (auto simp: resolve_append next_table_def get_next_level_def raw_table_of_def
          split: if_splits outcome.splits)
  next
    case True
    obtain x fa' where x: "alloc (frame_alloc m) = Some (x, fa')" using alloc_total [OF fa] by auto
    show ?thesis
    proof (cases x)
      case None
      then have "self' = self" "m' = m" "r = Err OutOfMemory" "held (frame_alloc m) = frames (frame_alloc m)"
        using step al True x alloc_exhausted [OF fa, of fa']
        by (auto simp: get_create_next_level_def ensure_can_modify_def empty_iff)
      then show ?thesis using inv refl by simp
    next
      case (Some f)
      have "r = raw_table_of f" "m' = m\<lparr>frame_alloc := fa', phys := (phys m)(entry_ref t i := new_table A f)\<rparr>"
          "self' = self\<lparr>allocation := Some (al\<lparr>pt_frames := pt_frames al @ [f]\<rparr>)\<rparr>"
        using step al True x Some
        by (auto simp: get_create_next_level_def ensure_can_modify_def empty_iff)
      then show ?thesis
        using table_added [OF inv al p True x [unfolded Some], of m' self'] by auto
    qed
  qed
qed

lemma create_walk_spec:
  "pt_inv A invar held frames (self, m) \<Longrightarrow> valid_path p \<Longrightarrow> valid_path is \<Longrightarrow> is \<noteq> [] \<Longrightarrow>
   length p + length is \<le> LEVELS A \<Longrightarrow> resolve A (phys m) (pt_root self) p = Some t \<Longrightarrow>
   create_walk A alloc t is (self, m) = (r, self', m') \<Longrightarrow>
   pt_inv A invar held frames (self', m') \<and> grows A held frames (self, m) (self', m')
    \<and> r \<noteq> Panic
    \<and> (\<forall>s. r = Ok s \<longrightarrow> (\<exists>t'. resolve A (phys m') (pt_root self') (p @ butlast is) = Some t' \<and> s = entry_ref t' (last is)))
    \<and> (r = Err OutOfMemory \<longrightarrow> held (frame_alloc m') = frames (frame_alloc m'))"
proof (induction "is" arbitrary: self m p t)
  case (Cons i "is")
  show ?case
  proof (cases "is")
    case Nil
    then show ?thesis using Cons.prems grows_refl [of "(self, m)"]
      by (auto simp: pt_inv_def split: prod.splits)
  next
    case (Cons j js)
    obtain r1 self1 m1 where st: "get_create_next_level A alloc (entry_ref t i) (self, m) = (r1, self1, m1)"
      by (metis surj_pair)
    have i: "i < 512" and len: "length p + 1 < LEVELS A" using Cons.prems Cons by auto
    note s1 = create_step [OF Cons.prems(1,2) len Cons.prems(6) i st]
    show ?thesis
    proof (cases r1)
      case (Ok t1)
      then have "create_walk A alloc t1 is (self1, m1) = (r, self', m')"
        using Cons.prems(7) st Cons by simp
      moreover have "resolve A (phys m1) (pt_root self1) (p @ [i]) = Some t1" using s1 Ok by simp
      ultimately show ?thesis
        using Cons.IH [of self1 m1 "p @ [i]" t1] Cons.prems s1 Cons grows_trans by auto
    qed (use Cons.prems(7) st s1 Cons in auto)
  qed
qed simp

end

text \<open>The path an access of a given page size follows, and the addresses that share it.\<close>

definition target_path :: "pt_arch \<Rightarrow> usize \<Rightarrow> PageSize \<Rightarrow> usize list" where
  "target_path A va sz = take (LEVELS A - size_level sz + 1) (indices A va)"

definition region :: "pt_arch \<Rightarrow> nat \<Rightarrow> usize \<Rightarrow> usize" where
  "region A k va = shr va (12 + 9 * (k - 1)) AND mask (9 * (LEVELS A - k + 1))"

lemma size_level_bounds: "1 \<le> size_level sz" "size_level sz \<le> 3"
  by (cases sz; simp)+

lemma chunk_eq:
  "(shr x a AND mask 9 = shr y a AND mask 9 \<and> shr x (a + 9) AND mask m = shr y (a + 9) AND mask m)
   \<longleftrightarrow> shr x a AND mask (m + 9) = shr y a AND mask (m + 9)" for x y :: usize
proof -
  have e: "(shr x a AND mask n = shr y a AND mask n) \<longleftrightarrow> (\<forall>k<n. bit x (a + k) = bit y (a + k))" for a n
  proof
    assume l: "shr x a AND mask n = shr y a AND mask n"
    show "\<forall>k<n. bit x (a + k) = bit y (a + k)"
    proof (intro allI impI)
      fix k assume "k < n"
      have "bit (shr x a AND mask n) k = bit (shr y a AND mask n) k" using l by simp
      then show "bit x (a + k) = bit y (a + k)"
        using \<open>k < n\<close> bit_imp_le_length [of x "a + k"] bit_imp_le_length [of y "a + k"]
        by (auto simp: bit_simps)
    qed
  qed (intro bit_word_eqI, auto simp: bit_simps)
  have "(\<forall>k<m + 9. bit x (a + k) = bit y (a + k)) \<longleftrightarrow>
      (\<forall>k<9. bit x (a + k) = bit y (a + k)) \<and> (\<forall>k<m. bit x (a + 9 + k) = bit y (a + 9 + k))"
    (is "?l \<longleftrightarrow> ?r")
  proof
    assume ?r
    show ?l
    proof (intro allI impI)
      fix k assume "k < m + 9"
      then show "bit x (a + k) = bit y (a + k)"
        using \<open>?r\<close> by (cases "k < 9") (auto dest!: spec [of _ "k - 9"])
    qed
  next
    assume ?l
    then show ?r by (auto simp: add.assoc)
  qed
  then show ?thesis unfolding e by blast
qed

lemma index_mask: "NUM_ENTRIES - 1 = mask 9"
  by (simp add: NUM_ENTRIES_def mask_eq_exp_minus_1)

lemma shr_page_down: "12 \<le> k \<Longrightarrow> shr (va - va mod PAGE_SIZE) k = shr va k"
proof -
  assume "12 \<le> k"
  have "va - va mod PAGE_SIZE = va AND NOT (mask 12)"
    using word_and_not_mask_eq [of va 12] by (simp add: PAGE_SIZE_exp mask_eq_exp_minus_1)
  moreover have "shr (va AND NOT (mask 12)) k = shr va k"
    using \<open>12 \<le> k\<close> bit_imp_le_length [where 'a = 64] by (intro bit_word_eqI) (auto simp: bit_simps)
  ultimately show ?thesis by simp
qed

lemma indices_page_down: "indices A (va - va mod PAGE_SIZE) = indices A va"
  by (simp add: indices_def p4_index_def p3_index_def p2_index_def p1_index_def shr_page_down)

lemma length_indices: "LEVELS A = 3 \<or> LEVELS A = 4 \<Longrightarrow> length (indices A va) = LEVELS A"
  by (auto simp: indices_def)

lemma chunks:
  "shr x a AND mask 18 = shr y a AND mask 18 \<longleftrightarrow>
     shr x a AND mask 9 = shr y a AND mask 9 \<and> shr x (a + 9) AND mask 9 = shr y (a + 9) AND mask 9"
  "shr x a AND mask 27 = shr y a AND mask 27 \<longleftrightarrow>
     shr x a AND mask 9 = shr y a AND mask 9 \<and> shr x (a + 9) AND mask 18 = shr y (a + 9) AND mask 18"
  "shr x a AND mask 36 = shr y a AND mask 36 \<longleftrightarrow>
     shr x a AND mask 9 = shr y a AND mask 9 \<and> shr x (a + 9) AND mask 27 = shr y (a + 9) AND mask 27"
  for x y :: usize
  using chunk_eq [of a x y 9] chunk_eq [of a x y 18] chunk_eq [of a x y 27] by simp_all

lemma prefix_take_iff:
  assumes "length xs = length ys"
  shows "prefix (take n xs) ys \<longleftrightarrow> take n xs = take n ys"
proof
  assume "prefix (take n xs) ys"
  then obtain zs where zs: "ys = take n xs @ zs" by (auto simp: prefix_def)
  then show "take n xs = take n ys" using assms by (cases "n \<le> length xs") auto
qed (metis take_is_prefix)

lemma take_indices_region:
  assumes "LEVELS A = 3 \<or> LEVELS A = 4"
  shows "take (LEVELS A - size_level sz + 1) (indices A va) = take (LEVELS A - size_level sz + 1) (indices A va')
    \<longleftrightarrow> region A (size_level sz) va = region A (size_level sz) va'"
  using assms
  by (cases sz; elim disjE; simp add: indices_def region_def p4_index_def p3_index_def p2_index_def
      p1_index_def index_mask; simp add: chunks; blast)

lemma target_path_region:
  assumes "LEVELS A = 3 \<or> LEVELS A = 4"
  shows "prefix (target_path A va sz) (indices A va') \<longleftrightarrow>
    region A (size_level sz) va = region A (size_level sz) va'"
  unfolding target_path_def
  by (subst prefix_take_iff) (simp_all only: length_indices [OF assms] take_indices_region [OF assms])

context paging
begin

lemma raw_root: "pt_tree A mem r own \<Longrightarrow> raw_table_of r = Ok r"
  by (simp add: pt_tree_def raw_table_of_def is_null_def)

lemma get_entry_walk:
  assumes "raw_table_of (pt_root self) = Ok (pt_root self)"
  shows "get_entry_internal A self mem va =
    obind (walk A mem (pt_root self) (indices A va)) (\<lambda>(s, l). Ok (s, level_size l))"
  using levels assms
  by (auto simp: get_entry_internal_def indices_def obind_assoc Let_def level_size_def intro!: obind_cong [OF refl])

lemma query_lookup:
  assumes "raw_table_of (pt_root self) = Ok (pt_root self)"
  shows "query_virtual A self mem va =
    obind (lookup A mem (pt_root self) (indices A va)) (\<lambda>(e, l).
      Ok (pte_paddr A e OR (va AND (as_usize (level_size l) - 1)), pte_flags A e, level_size l))"
proof -
  have "obind (of_opt (usub (as_usize (level_size l)) 1)) f = f (as_usize (level_size l) - 1)" for l f
    by (simp add: usub_def level_size_def)
  then show ?thesis
    using assms
    by (cases "walk A mem (pt_root self) (indices A va)")
      (auto simp: query_virtual_def page_down_eq get_entry_def get_entry_walk indices_page_down
        lookup_def empty_iff Let_def split: prod.splits simp del: as_usize.simps)
qed

lemma create_entry_walk:
  assumes "allocation self \<noteq> None" "raw_table_of (pt_root self) = Ok (pt_root self)" "is_page_aligned va"
  shows "get_create_entry A alloc va sz (self, m) =
    create_walk A alloc (pt_root self) (target_path A va sz) (self, m)"
  using levels assms
  by (cases sz) (auto simp: get_create_entry_def ensure_can_modify_def target_path_def indices_def
      intro!: sbind_cong)

end

lemma walk_found:
  "walk A mem t is = Ok (s, l) \<Longrightarrow> 1 \<le> l \<and> l \<le> length is \<and> (l = 1 \<or> l \<le> 3 \<and> is_huge A (mem s))
   \<and> (\<exists>t'. resolve A mem t (take (length is - l) is) = Some t' \<and> s = entry_ref t' (is ! (length is - l)))"
proof (induction A mem t "is" rule: walk.induct)
  case (3 A mem t i j "is")
  show ?case
  proof (cases "length is + 2 \<le> 3 \<and> is_huge A (mem (entry_ref t i))")
    case False
    then obtain t' where t': "get_next_level A (mem (entry_ref t i)) = Ok t'" "walk A mem t' (j # is) = Ok (s, l)"
      using 3 by (auto simp: outcome_simps split: if_splits)
    note IH = 3(1) [OF False t'(1,2)]
    then have "length (i # j # is) - l = Suc (length (j # is) - l)" by auto
    then show ?thesis using IH t' by (auto simp: next_table_def)
  qed (use 3 in auto)
qed simp_all

context paging
begin

lemma leaf_write:
  assumes inv: "pt_inv A invar held frames (self, m)"
    and p: "valid_path p" "length p < LEVELS A" "resolve A (phys m) (pt_root self) p = Some t" "i < 512"
    and e: "length p + 1 = LEVELS A \<or> e = 0 \<or> LEVELS A - length p \<le> 3 \<and> is_huge A e"
    and m': "m' = m\<lparr>phys := (phys m)(entry_ref t i := e)\<rparr>"
  shows "pt_inv A invar held frames (self, m')
    \<and> (\<forall>q. valid_path q \<longrightarrow> length q = LEVELS A \<longrightarrow>
        lookup A (phys m') (pt_root self) q =
          (if prefix (p @ [i]) q then (if e = 0 then Err NotMapped else Ok (e, LEVELS A - length p))
           else lookup A (phys m) (pt_root self) q))"
proof -
  have ok: "\<And>f. f \<in> frames (frame_alloc m) \<Longrightarrow> is_page_aligned f"
    and ow: "owned self \<subseteq> held (frame_alloc m)"
    and tree: "pt_tree A (phys m) (pt_root self) (owned self)"
    using inv by (auto simp: pt_inv_def)
  have t: "t \<in> owned self" "is_page_aligned t"
    using pt_treeD(3) [OF tree p(1-3)] resolve_aligned [OF pt_treeD(1) [OF tree] p(3)] by auto
  have upd: "s \<noteq> entry_ref t i \<Longrightarrow> phys m' s = phys m s" for s using m' by simp
  have tree': "pt_tree A (phys m') (pt_root self) (owned self)"
  proof (rule pt_tree_update_leaf [OF tree p upd])
    show "length p + 1 = LEVELS A \<or> next_table A (phys m' (entry_ref t i)) = None"
      using e m' next_table_huge by auto
  qed
  have "entry_ref g j \<noteq> entry_ref t i"
    if "g \<in> frames (frame_alloc m) - held (frame_alloc m)" "j < 512" for g j
    using entry_ref_inj [OF _ t(2) that(2) p(4), of g] ok that(1) t(1) ow by auto
  then have "pt_inv A invar held frames (self, m')"
    using inv tree' m' by (auto simp: pt_inv_def clean_def)
  moreover have "lookup A (phys m') (pt_root self) q = (if e = 0 then Err NotMapped else Ok (e, LEVELS A - length p))"
    if q: "valid_path q" "length q = LEVELS A" "prefix (p @ [i]) q" for q
  proof -
    obtain rest where rest: "q = p @ i # rest" using q(3) by (auto simp: prefix_def)
    then have "walk A (phys m') (pt_root self) q = walk A (phys m') t (i # rest)"
      using walk_update_through [OF tree p upd] by simp
    moreover have "LEVELS A - length p = length rest + 1" using rest q(2) by simp
    ultimately show ?thesis
      using e m' zero_not_huge by (cases rest) (auto simp: lookup_def)
  qed
  ultimately show ?thesis
    using lookup_update_other [OF tree p upd] by auto
qed

lemma target_path_props:
  "valid_path (target_path A va sz)" "target_path A va sz \<noteq> []"
  "length (target_path A va sz) = LEVELS A - size_level sz + 1"
  using levels length_indices [OF levels, of va] size_level_bounds [of sz]
  by (auto simp: target_path_def)

text \<open>\<^verbatim>\<open>get_create_entry\<close> returns the entry at the end of the path, adds only empty tables, and
  keeps the translation of every address.\<close>

lemma get_create_entry_spec:
  assumes inv: "pt_inv A invar held frames (self, m)"
    and run: "get_create_entry A alloc va sz (self, m) = (r, self', m')"
  shows "pt_inv A invar held frames (self', m') \<and> grows A held frames (self, m) (self', m') \<and> r \<noteq> Panic
    \<and> (r = Err OutOfMemory \<longrightarrow> held (frame_alloc m') = frames (frame_alloc m'))
    \<and> (\<forall>s. r = Ok s \<longrightarrow> is_page_aligned va \<and>
        (\<exists>t. resolve A (phys m') (pt_root self') (butlast (target_path A va sz)) = Some t
             \<and> s = entry_ref t (last (target_path A va sz))))"
proof -
  obtain al where al: "allocation self = Some al"
    and tree: "pt_tree A (phys m) (pt_root self) (owned self)" and ow: "owned self \<subseteq> held (frame_alloc m)"
    using inv by (auto simp: pt_inv_def)
  show ?thesis
  proof (cases "is_page_aligned va")
    case False
    then have "r = Err NotAligned" "self' = self" "m' = m"
      using run al by (auto simp: get_create_entry_def ensure_can_modify_def)
    then show ?thesis using inv grows_refl [of "(self, m)"] ow by simp
  next
    case True
    then have "create_walk A alloc (pt_root self) (target_path A va sz) (self, m) = (r, self', m')"
      using create_entry_walk [of self va] raw_root [OF tree] run al by simp
    moreover have "length (target_path A va sz) \<le> LEVELS A"
      using target_path_props(3) [of va sz] size_level_bounds [of sz] levels by arith
    ultimately show ?thesis
      using create_walk_spec [OF inv, of "[]" "target_path A va sz" "pt_root self" r self' m']
        target_path_props(1,2) [of va sz] True by auto
  qed
qed

end

text \<open>What \<^verbatim>\<open>query_virtual\<close> answers for an entry found at a level.\<close>

definition translation :: "pt_arch \<Rightarrow> u64 \<Rightarrow> nat \<Rightarrow> usize \<Rightarrow> usize \<times> usize \<times> PageSize" where
  "translation A e l va =
     (pte_paddr A e OR (va AND (as_usize (level_size l) - 1)), pte_flags A e, level_size l)"

context paging
begin

lemma pt_invD:
  "pt_inv A invar held frames (self, m) \<Longrightarrow> pt_tree A (phys m) (pt_root self) (owned self)"
  "pt_inv A invar held frames (self, m) \<Longrightarrow> \<exists>al. allocation self = Some al"
  "pt_inv A invar held frames (self, m) \<Longrightarrow> owned self \<subseteq> held (frame_alloc m)"
  by (auto simp: pt_inv_def)

lemma query_translation:
  "pt_inv A invar held frames (self, m) \<Longrightarrow> query_virtual A self (phys m) va =
    obind (lookup A (phys m) (pt_root self) (indices A va)) (\<lambda>(e, l). Ok (translation A e l va))"
  using query_lookup [OF raw_root [OF pt_invD(1)]] by (simp add: translation_def)

lemma query_grows:
  assumes "pt_inv A invar held frames (self, m)" "pt_inv A invar held frames (self', m')"
    and "grows A held frames (self, m) (self', m')"
  shows "query_virtual A self' (phys m') va = query_virtual A self (phys m) va"
  using assms length_indices [OF levels]
  by (simp add: query_translation grows_def)

text \<open>Writing a leaf at the end of the path of an address changes the translation of the addresses
  that share the path, and of no other.\<close>

lemma query_leaf_write:
  assumes inv: "pt_inv A invar held frames (self, m)"
    and tp: "resolve A (phys m) (pt_root self) (butlast (target_path A va sz)) = Some t"
    and k: "k = size_level sz"
    and e: "k = 1 \<or> e = 0 \<or> is_huge A e"
    and m': "m' = m\<lparr>phys := (phys m)(entry_ref t (last (target_path A va sz)) := e)\<rparr>"
  shows "pt_inv A invar held frames (self, m')
    \<and> query_virtual A self (phys m') va' =
      (if region A k va' = region A k va then (if e = 0 then Err NotMapped else Ok (translation A e k va'))
       else query_virtual A self (phys m) va')
    \<and> (e \<noteq> 0 \<longrightarrow> lookup A (phys m') (pt_root self) (indices A va) = Ok (e, k))"
proof -
  let ?p = "butlast (target_path A va sz)" and ?i = "last (target_path A va sz)"
  have pi: "?p @ [?i] = target_path A va sz" using target_path_props(2) by simp
  have v: "valid_path ?p" "?i < 512"
    using target_path_props(1) [of va sz] pi by (metis valid_path_simps)+
  have len: "length ?p < LEVELS A" "LEVELS A - length ?p = k" "k = 1 \<longleftrightarrow> length ?p + 1 = LEVELS A" "k \<le> 3"
    using target_path_props(3) [of va sz] size_level_bounds [of sz] levels k by auto
  have e': "length ?p + 1 = LEVELS A \<or> e = 0 \<or> LEVELS A - length ?p \<le> 3 \<and> is_huge A e"
    using e len by auto
  note w = leaf_write [OF inv v(1) len(1) tp v(2) e' m']
  have pre: "prefix (?p @ [?i]) (indices A va') \<longleftrightarrow> region A k va' = region A k va"
    using target_path_region [OF levels, of va sz va'] k by (auto simp: pi)
  have "prefix (?p @ [?i]) (indices A va)" using target_path_region [OF levels, of va sz va] by (simp add: pi)
  then show ?thesis
    using w query_translation [OF inv, of va'] query_translation [OF conjunct1 [OF w], of va']
      length_indices [OF levels] pre len(2)
    by (simp split: if_splits)
qed

lemma target_old_unmapped:
  assumes inv: "pt_inv A invar held frames (self, m)"
    and tp: "resolve A (phys m) (pt_root self) (butlast (target_path A va sz)) = Some t"
    and z: "phys m (entry_ref t (last (target_path A va sz))) = 0"
    and r: "region A (size_level sz) va' = region A (size_level sz) va"
  shows "query_virtual A self (phys m) va' = Err NotMapped"
proof -
  have "m = m\<lparr>phys := (phys m)(entry_ref t (last (target_path A va sz)) := 0)\<rparr>"
    using z by (metis (no_types, lifting) fun_upd_idem machine.surjective machine.update_convs(2))
  from query_leaf_write [OF inv tp refl _ this, where va' = va'] r show ?thesis by simp
qed

lemma map_single_spec:
  assumes inv: "pt_inv A invar held frames (self, m)"
    and run: "map_single A alloc va target sz flags (self, m) = (r, self', m')"
    and target: "unat target < 2 ^ PA_MAX_BITS A"
    and flags: "flags \<noteq> 0" "size_level sz = 1 \<or> leafable flags"
    and k: "k = size_level sz"
  shows "pt_inv A invar held frames (self', m') \<and> r \<noteq> Panic
    \<and> pt_root self' = pt_root self
    \<and> query_virtual A self' (phys m') va' =
        (if r = Ok () \<and> region A k va' = region A k va
         then Ok (target OR (va' AND (as_usize (level_size k) - 1)), canon flags, level_size k)
         else query_virtual A self (phys m) va')
    \<and> (r = Ok () \<longrightarrow> is_page_aligned va \<and> is_page_aligned target
        \<and> (region A k va' = region A k va \<longrightarrow> query_virtual A self (phys m) va' = Err NotMapped))
    \<and> (r = Ok () \<longrightarrow>
        lookup A (phys m') (pt_root self') (indices A va) = Ok (new_page A target flags (sz \<noteq> PS_4K), k))
    \<and> (r = Err OutOfMemory \<longrightarrow> held (frame_alloc m') = frames (frame_alloc m'))"
proof (cases "is_page_aligned target")
  case False
  then show ?thesis using run inv by (auto simp: map_single_def)
next
  case True
  obtain r1 self1 m1 where c: "get_create_entry A alloc va sz (self, m) = (r1, self1, m1)"
    by (metis surj_pair)
  note s1 = get_create_entry_spec [OF inv c]
  then have inv1: "pt_inv A invar held frames (self1, m1)" and g: "grows A held frames (self, m) (self1, m1)" by auto
  note q1 = query_grows [OF inv inv1 g]
  have root: "pt_root self1 = pt_root self" using g by (simp add: grows_def)
  show ?thesis
  proof (cases r1)
    case (Ok s)
    then obtain t where t: "resolve A (phys m1) (pt_root self1) (butlast (target_path A va sz)) = Some t"
      "s = entry_ref t (last (target_path A va sz))" and va: "is_page_aligned va" using s1 by auto
    show ?thesis
    proof (cases "phys m1 s = 0")
      case False
      then have "r = Err AlreadyMapped" "self' = self1" "m' = m1"
        using run True c Ok by (auto simp: map_single_def empty_iff)
      then show ?thesis using inv1 q1 root by simp
    next
      case z: True
      have td: "target - target mod PAGE_SIZE = target"
        using True by (simp add: is_page_aligned_def is_aligned_def)
      let ?e = "new_page A target flags (sz \<noteq> PS_4K)"
      have st: "r = Ok ()" "self' = self1" "m' = m1\<lparr>phys := (phys m1)(s := ?e)\<rparr>"
        using run True c Ok z td by (auto simp: map_single_def empty_iff page_down_eq write_entry_def)
      have huge: "k = 1 \<or> ?e = 0 \<or> is_huge A ?e"
        using flags(2) k page_huge by (cases sz) auto
      have tr: "translation A ?e k va' = (target OR (va' AND (as_usize (level_size k) - 1)), canon flags, level_size k)"
        using page_paddr [OF True target] page_flags by (simp add: translation_def)
      have ne: "?e \<noteq> 0" using page_nonempty flags(1) by simp
      note w = query_leaf_write [OF inv1 t(1) k huge st(3) [unfolded t(2)], where va' = va']
      have "region A k va' = region A k va \<Longrightarrow> query_virtual A self1 (phys m1) va' = Err NotMapped"
        using target_old_unmapped [OF inv1 t(1) z [unfolded t(2)], of va'] k by simp
      then show ?thesis
        using w st q1 root ne tr va True by (simp split: if_splits)
    qed
  qed (use run True c s1 inv1 q1 root in \<open>auto simp: map_single_def\<close>)
qed


lemma walk_target:
  assumes "walk A mem r (indices A va) = Ok (s, l)"
  shows "\<exists>t. resolve A mem r (butlast (target_path A va (level_size l))) = Some t
    \<and> s = entry_ref t (last (target_path A va (level_size l)))"
    and "size_level (level_size l) = l" and "l = 1 \<or> is_huge A (mem s)"
proof -
  note f = walk_found [OF assms, unfolded length_indices [OF levels]]
  show l: "size_level (level_size l) = l" using f by (auto simp: level_size_def)
  have n: "LEVELS A - l < length (indices A va)" using f levels length_indices [OF levels, of va] by auto
  have "target_path A va (level_size l) = take (LEVELS A - l) (indices A va) @ [indices A va ! (LEVELS A - l)]"
    using take_Suc_conv_app_nth [OF n] l by (simp add: target_path_def)
  then show "\<exists>t. resolve A mem r (butlast (target_path A va (level_size l))) = Some t
    \<and> s = entry_ref t (last (target_path A va (level_size l)))"
    using f by (auto)
qed (use walk_found [OF assms] in auto)

lemma get_entry_mut_found:
  assumes inv: "pt_inv A invar held frames (self, m)"
    and found: "walk A (phys m) (pt_root self) (indices A va) = Ok (s, l)"
  shows "get_entry_mut A self (phys m) va = Ok (s, level_size l)"
  using found get_entry_walk [OF raw_root [OF pt_invD(1) [OF inv]]] pt_invD(2) [OF inv]
  by (auto simp: get_entry_mut_def ensure_can_modify_def)

lemma lookup_found:
  "lookup A mem r q = Ok (e, l) \<longleftrightarrow> (\<exists>s. walk A mem r q = Ok (s, l) \<and> mem s = e \<and> e \<noteq> 0)"
  by (auto simp: lookup_def outcome_simps split: if_splits)

lemma unmap_single_spec:
  assumes inv: "pt_inv A invar held frames (self, m)"
    and found: "lookup A (phys m) (pt_root self) (indices A va) = Ok (e, k)"
    and run: "unmap_single A va (self, m) = (r, self', m')"
  shows "pt_inv A invar held frames (self', m') \<and> self' = self
    \<and> r = (if is_present A e then Ok (pte_paddr A e, level_size k) else Err NotMapped)
    \<and> query_virtual A self' (phys m') va' =
        (if region A k va' = region A k va then Err NotMapped else query_virtual A self (phys m) va')"
proof -
  obtain s where s: "walk A (phys m) (pt_root self) (indices A va) = Ok (s, k)" "phys m s = e"
    using found by (auto simp: lookup_found)
  obtain t where t: "resolve A (phys m) (pt_root self) (butlast (target_path A va (level_size k))) = Some t"
      "s = entry_ref t (last (target_path A va (level_size k)))" and k: "k = size_level (level_size k)"
    using walk_target [OF s(1)] by metis
  have st: "self' = self" "m' = m\<lparr>phys := (phys m)(s := 0)\<rparr>"
      "r = (if is_present A e then Ok (pte_paddr A e, level_size k) else Err NotMapped)"
    using run get_entry_mut_found [OF inv s(1)] s(2)
    by (auto simp: unmap_single_def write_entry_def clear_0 split: if_splits)
  from query_leaf_write [OF inv t(1) k _ st(2) [unfolded t(2)], where va' = va'] st
  show ?thesis by simp
qed

lemma remap_single_spec:
  assumes inv: "pt_inv A invar held frames (self, m)"
    and found: "walk A (phys m) (pt_root self) (indices A va) = Ok (s, k)"
    and run: "remap_single A va target flags (self, m) = (r, self', m')"
    and target: "is_page_aligned target" "unat target < 2 ^ PA_MAX_BITS A"
    and flags: "flags \<noteq> 0" "k = 1 \<or> leafable flags"
  shows "pt_inv A invar held frames (self', m') \<and> self' = self \<and> r = Ok (level_size k)
    \<and> query_virtual A self' (phys m') va' =
        (if region A k va' = region A k va
         then Ok (target OR (va' AND (as_usize (level_size k) - 1)), canon flags, level_size k)
         else query_virtual A self (phys m) va')"
proof -
  let ?e = "new_page A target flags (level_size k \<noteq> PS_4K)"
  obtain t where t: "resolve A (phys m) (pt_root self) (butlast (target_path A va (level_size k))) = Some t"
      "s = entry_ref t (last (target_path A va (level_size k)))" and k: "k = size_level (level_size k)"
    using walk_target [OF found] by metis
  have st: "self' = self" "m' = m\<lparr>phys := (phys m)(s := ?e)\<rparr>" "r = Ok (level_size k)"
    using run target(1) get_entry_mut_found [OF inv found]
    by (auto simp: remap_single_def write_entry_def page_update)
  have huge: "k = 1 \<or> ?e = 0 \<or> is_huge A ?e"
    using flags(2) page_huge k by (cases "level_size k") (auto)
  have tr: "translation A ?e k va' = (target OR (va' AND (as_usize (level_size k) - 1)), canon flags, level_size k)"
    using page_paddr [OF target] page_flags by (simp add: translation_def)
  have ne: "?e \<noteq> 0" using page_nonempty flags(1) by simp
  from query_leaf_write [OF inv t(1) k huge st(2) [unfolded t(2)], where va' = va'] st ne tr
  show ?thesis by simp
qed

lemma walk_missing:
  assumes inv: "pt_inv A invar held frames (self, m)"
    and "walk A (phys m) (pt_root self) (indices A va) = Err x"
  shows "unmap_single A va (self, m) = (Err x, self, m)"
    and "is_page_aligned target \<Longrightarrow> remap_single A va target flags (self, m) = (Err x, self, m)"
  using assms(2) get_entry_walk [OF raw_root [OF pt_invD(1) [OF inv]], of "phys m" va] pt_invD(2) [OF inv]
  by (auto simp: unmap_single_def remap_single_def get_entry_mut_def ensure_can_modify_def)

end

context paging
begin

lemma fresh_tree:
  assumes "is_page_aligned f" "f \<noteq> 0" "\<And>i. i < 512 \<Longrightarrow> mem (entry_ref f i) = 0"
  shows "pt_tree A mem f {f}"
proof -
  have "resolve A mem f p = Some t \<Longrightarrow> valid_path p \<Longrightarrow> p = [] \<and> t = f" for p t
    using assms(3) by (cases p) auto
  then show ?thesis using assms(1,2) unfolding pt_tree_def by blast
qed

lemma pt_alloc_spec:
  assumes fa: "invar (frame_alloc m)"
    and ok: "\<And>f. f \<in> frames (frame_alloc m) \<Longrightarrow> is_page_aligned f \<and> f \<noteq> 0 \<and> unat f < 2 ^ PA_MAX_BITS A"
    and cl: "clean (phys m) (frames (frame_alloc m) - held (frame_alloc m))"
  shows "(case pt_alloc alloc m of
      None \<Rightarrow> held (frame_alloc m) = frames (frame_alloc m)
    | Some (self, m') \<Rightarrow> pt_inv A invar held frames (self, m')
        \<and> query_virtual A self (phys m') va = Err NotMapped
        \<and> held (frame_alloc m') = held (frame_alloc m) \<union> owned self)"
proof -
  obtain r fa' where x: "alloc (frame_alloc m) = Some (r, fa')" using alloc_total [OF fa] by auto
  show ?thesis
  proof (cases r)
    case None
    then show ?thesis using alloc_exhausted [OF fa, of fa'] x by (simp add: pt_alloc_def)
  next
    case (Some f)
    have f: "f \<in> frames (frame_alloc m)" "f \<notin> held (frame_alloc m)"
        "held fa' = insert f (held (frame_alloc m))" and fa': "invar fa'" "frames fa' = frames (frame_alloc m)"
      using alloc_fresh [OF fa] alloc_invar [OF fa x] x Some by auto
    let ?self = "\<lparr>pt_root = f, allocation = Some \<lparr>pt_frames = [f], cross_mappings = cross_new null_addr\<rparr>\<rparr>"
    let ?m = "m\<lparr>frame_alloc := fa'\<rparr>"
    have run: "pt_alloc alloc m = Some (?self, ?m)"
      using x Some by (simp add: pt_alloc_def pt_from_borrowed_def)
    have z: "phys m (entry_ref f i) = 0" if "i < 512" for i using cl f that by (auto simp: clean_def)
    have inv: "pt_inv A invar held frames (?self, ?m)"
      using fa' ok f cl fresh_tree [of f "phys m"] z
      by (auto simp: pt_inv_def owned_def owned_list_def clean_def)
    have "lookup A (phys m) f (indices A va) = Err NotMapped"
      using lookup_zero_table [of "phys m" f "indices A va"] z length_indices [OF levels, of va] levels
        indices_valid [of A va]
      by (cases "indices A va") auto
    then have "query_virtual A ?self (phys ?m) va = Err NotMapped"
      using query_translation [OF inv, of va] by simp
    then show ?thesis using run inv f(3) by (simp add: owned_def owned_list_def)
  qed
qed

lemma pt_drop_loop_spec:
  "invar s \<Longrightarrow> distinct fs \<Longrightarrow> set fs \<subseteq> held s \<Longrightarrow>
   \<exists>s'. pt_drop_loop free fs s = Some s' \<and> invar s' \<and> held s' = held s - set fs \<and> frames s' = frames s"
proof (induction fs arbitrary: s)
  case (Cons f fs)
  obtain s1 where s1: "free s f = Some s1" "invar s1" "held s1 = held s - {f}" "frames s1 = frames s"
    using free_held [of s f] Cons.prems by auto
  then have "held s1 - set fs = held s - set (f # fs)" "set fs \<subseteq> held s1"
    using Cons.prems by auto
  then show ?case using Cons.IH [of s1] Cons.prems s1 by auto
qed simp

lemma pt_drop_spec:
  assumes "pt_inv A invar held frames (self, m)"
  shows "\<exists>m'. pt_drop free self m = Some m' \<and> invar (frame_alloc m')
    \<and> held (frame_alloc m') = held (frame_alloc m) - owned self
    \<and> frames (frame_alloc m') = frames (frame_alloc m) \<and> phys m' = phys m"
  using assms pt_drop_loop_spec [of "frame_alloc m" "rev (owned_list self)"]
  by (auto simp: pt_inv_def pt_drop_def owned_def owned_list_def)

end

section \<open>The page tables of the two architectures\<close>

definition arch_canon :: "pt_arch \<Rightarrow> usize \<Rightarrow> usize" where
  "arch_canon A f = (if loongarch64 A then la64_canon f else rv64_canon f)"

definition arch_leafable :: "pt_arch \<Rightarrow> usize \<Rightarrow> bool" where
  "arch_leafable A f = (if loongarch64 A then la64_leafable f else rv64_leafable f)"

interpretation sv39_paging: paging sv39 rv64_canon rv64_leafable alloc_frame dealloc fa_inv allocated fa_frames
  by unfold_locales (simp add: fa_frames_def)

interpretation la64_paging: paging la64 la64_canon la64_leafable alloc_frame dealloc fa_inv allocated fa_frames
  by unfold_locales (simp add: fa_frames_def)

lemma native_paging:
  assumes "A = sv39 \<or> A = la64"
  shows "paging A (arch_canon A) (arch_leafable A) alloc_frame dealloc fa_inv allocated fa_frames"
proof -
  have "arch_canon sv39 = rv64_canon" "arch_leafable sv39 = rv64_leafable"
    "arch_canon la64 = la64_canon" "arch_leafable la64 = la64_leafable"
    by (auto simp: arch_canon_def arch_leafable_def sv39_def la64_def)
  then show ?thesis
    using assms sv39_paging.paging_axioms la64_paging.paging_axioms by auto
qed

abbreviation native_inv :: "pt_arch \<Rightarrow> frame_allocator pt_state \<Rightarrow> bool" where
  "native_inv A \<equiv> pt_inv A fa_inv allocated fa_frames"

text \<open>A small machine: sixteen frames of zeroed memory.\<close>

definition boot_machine :: "frame_allocator machine" where
  "boot_machine = \<lparr>frame_alloc = fa_new 0x80010000 0x80000000, phys = (\<lambda>_. 0)\<rparr>"

lemma boot_ok:
  "A = sv39 \<or> A = la64 \<Longrightarrow> f \<in> fa_frames (frame_alloc boot_machine) \<Longrightarrow>
     is_page_aligned f \<and> f \<noteq> 0 \<and> unat f < 2 ^ PA_MAX_BITS A"
  "fa_inv (frame_alloc boot_machine)" "clean (phys boot_machine) F"
  "allocated (frame_alloc boot_machine) = {}"
proof -
  show "A = sv39 \<or> A = la64 \<Longrightarrow> f \<in> fa_frames (frame_alloc boot_machine) \<Longrightarrow>
     is_page_aligned f \<and> f \<noteq> 0 \<and> unat f < 2 ^ PA_MAX_BITS A"
    by (auto simp: boot_machine_def fa_frames_def fa_new_def sv39_def la64_def word_less_nat_alt word_le_nat_alt)
  show "fa_inv (frame_alloc boot_machine)"
    by (simp add: boot_machine_def fa_inv_def fa_new_def is_page_aligned_def is_aligned_def PAGE_SIZE_def)
qed (auto simp: boot_machine_def clean_def allocated_def fa_new_def)

definition boot_table :: "frame_allocator pt_state" where
  "boot_table = the (pt_alloc alloc_frame boot_machine)"

lemma pt_alloc_boot: "pt_alloc alloc_frame boot_machine = Some boot_table"
  by (simp add: boot_table_def pt_alloc_def boot_machine_def fa_new_def alloc_frame_def addr_add_def uadd_def PAGE_SIZE_def)

lemma boot_inv:
  assumes "A = sv39 \<or> A = la64"
  shows "native_inv A boot_table"
    and "allocated (frame_alloc (snd boot_table)) = owned (fst boot_table)"
  using paging.pt_alloc_spec [OF native_paging [OF assms], of boot_machine 0] boot_ok assms
  by (auto simp: pt_alloc_boot case_prod_beta)

lemma boot_table_eq:
  "boot_table = (\<lparr>pt_root = 0x80000000, allocation = Some \<lparr>pt_frames = [0x80000000], cross_mappings = cross_new 0\<rparr>\<rparr>,
     \<lparr>frame_alloc = \<lparr>fa_top = 0x80010000, fa_bottom = 0x80000000, current = 0x80001000, recycled = []\<rparr>, phys = (\<lambda>_. 0)\<rparr>)"
  by (simp add: boot_table_def pt_alloc_def boot_machine_def fa_new_def alloc_frame_def addr_add_def uadd_def
     PAGE_SIZE_def pt_from_borrowed_def null_addr_def)

lemmas run_simps = map_single_def get_create_entry_def get_create_next_level_def ensure_can_modify_def
  raw_table_of_def is_null_def entry_ref_def p4_index_def p3_index_def p2_index_def p1_index_def
  NUM_ENTRIES_def is_page_aligned_def is_aligned_def PAGE_SIZE_def alloc_frame_def addr_add_def
  uadd_def write_entry_def get_next_level_def page_down_def align_down_def is_power_of_two_def usub_def
  sv39_def rv64_is_empty_def rv64_new_table_def PTE_PHYS_MASK_def RV_Valid_def

lemma boot_map:
  "fst (map_single sv39 alloc_frame 0x1000 0x80200000 PS_4K (Readable OR User) boot_table) = Ok ()"
  by (simp add: boot_table_eq run_simps)

lemma boot_map_unmap_query:
  assumes "map_single sv39 alloc_frame 0x1000 0x80200000 PS_4K (Readable OR User) boot_table = (Ok (), self, m)"
  shows "native_inv sv39 (self, m)"
    and "query_virtual sv39 self (phys m) 0x1234 = Ok (0x80200234, Kernel OR Readable OR User, PS_4K)"
  using assms paging.map_single_spec [OF native_paging, of sv39 "fst boot_table" "snd boot_table"
      "0x1000" "0x80200000" PS_4K "Readable OR User" "Ok ()" self m 1 "0x1234"] boot_inv [of sv39]
  by (simp_all add: sv39_def gm_defs arch_canon_def rv64_canon_def region_def mask_eq_exp_minus_1)

section \<open>Properties\<close>

text \<open>C1: a successful \<^verbatim>\<open>map_single\<close> on either architecture keeps the table well-formed, makes
  exactly the addresses of the mapped page translate to the target frame with the flags that were
  asked for, and leaves the translation of every other address as it was; the page was unmapped
  before.\<close>

theorem map_single_correct:
  assumes "A = sv39 \<or> A = la64" and "native_inv A (self, m)"
    and "map_single A alloc_frame va target sz flags (self, m) = (Ok (), self', m')"
    and "unat target < 2 ^ PA_MAX_BITS A" and "flags \<noteq> 0"
    and "size_level sz = 1 \<or> arch_leafable A flags"
  shows "native_inv A (self', m')
    \<and> (\<forall>va'. query_virtual A self' (phys m') va' =
        (if region A (size_level sz) va' = region A (size_level sz) va
         then Ok (target OR (va' AND (as_usize (level_size (size_level sz)) - 1)), arch_canon A flags,
                  level_size (size_level sz))
         else query_virtual A self (phys m) va'))
    \<and> query_virtual A self (phys m) va = Err NotMapped"
  using paging.map_single_spec [OF native_paging [OF assms(1)] assms(2-6) refl] by simp

theorem map_single_correct_witness:
  "\<exists>self m. map_single sv39 alloc_frame 0x1000 0x80200000 PS_4K (Readable OR User) boot_table = (Ok (), self, m)
    \<and> query_virtual sv39 self (phys m) 0x1abc = Ok (0x80200abc, Kernel OR Readable OR User, PS_4K)"
proof -
  obtain self m where run:
    "map_single sv39 alloc_frame 0x1000 0x80200000 PS_4K (Readable OR User) boot_table = (Ok (), self, m)"
    using boot_map by (metis prod.collapse)
  then have "query_virtual sv39 self (phys m) 0x1abc = Ok (0x80200abc, Kernel OR Readable OR User, PS_4K)"
    using map_single_correct [of sv39 "fst boot_table" "snd boot_table" "0x1000" "0x80200000" PS_4K
        "Readable OR User" self m] boot_inv [of sv39]
    by (simp add: sv39_def gm_defs arch_canon_def rv64_canon_def region_def mask_eq_exp_minus_1)
  with run show ?thesis by blast
qed

text \<open>C13: a failing \<^verbatim>\<open>map_single\<close> never panics, keeps the table well-formed and keeps the
  translation of every address, even when it ran out of frames half way and left empty tables
  behind; it reports that it is out of memory only when every frame is handed out.\<close>

theorem map_single_failure:
  assumes "A = sv39 \<or> A = la64" and "native_inv A (self, m)"
    and "map_single A alloc_frame va target sz flags (self, m) = (r, self', m')" and "r \<noteq> Ok ()"
    and "unat target < 2 ^ PA_MAX_BITS A" and "flags \<noteq> 0"
    and "size_level sz = 1 \<or> arch_leafable A flags"
  shows "r \<noteq> Panic \<and> native_inv A (self', m')
    \<and> (\<forall>va'. query_virtual A self' (phys m') va' = query_virtual A self (phys m) va')
    \<and> (r = Err OutOfMemory \<longrightarrow> allocated (frame_alloc m') = fa_frames (frame_alloc m'))"
  using paging.map_single_spec [OF native_paging [OF assms(1)] assms(2,3,5-7) refl] assms(4) by simp

theorem map_single_failure_witness:
  "\<exists>self m. map_single sv39 alloc_frame 0x1000 0x80200010 PS_4K Readable boot_table = (Err NotAligned, self, m)
    \<and> native_inv sv39 (self, m)"
proof -
  have run: "map_single sv39 alloc_frame 0x1000 0x80200010 PS_4K Readable boot_table = (Err NotAligned, boot_table)"
    by (simp add: run_simps)
  have "native_inv sv39 boot_table"
    using map_single_failure [of sv39 "fst boot_table" "snd boot_table" "0x1000" "0x80200010" PS_4K Readable
        "Err NotAligned" "fst boot_table" "snd boot_table"] run boot_inv [of sv39]
    by (simp add: sv39_def gm_defs)
  with run show ?thesis by (metis prod.collapse)
qed

text \<open>C10: unmapping what was just mapped returns the frame and its page size and restores the
  translation of every address.\<close>

theorem map_unmap_roundtrip:
  assumes "A = sv39 \<or> A = la64" and "native_inv A (self, m)"
    and "map_single A alloc_frame va target sz flags (self, m) = (Ok (), self', m')"
    and "unat target < 2 ^ PA_MAX_BITS A" and "flags \<noteq> 0"
    and "size_level sz = 1 \<or> arch_leafable A flags"
  shows "\<exists>m''. unmap_single A va (self', m') = (Ok (target, level_size (size_level sz)), self', m'')
    \<and> native_inv A (self', m'')
    \<and> (\<forall>va'. query_virtual A self' (phys m'') va' = query_virtual A self (phys m) va')"
proof -
  note p = native_paging [OF assms(1)]
  note map = paging.map_single_spec [OF p assms(2-6) refl]
  obtain r self'' m'' where run: "unmap_single A va (self', m') = (r, self'', m'')" by (metis surj_pair)
  let ?e = "new_page A target flags (sz \<noteq> PS_4K)"
  have "native_inv A (self', m')" "is_page_aligned target"
    "lookup A (phys m') (pt_root self') (indices A va) = Ok (?e, size_level sz)"
    using map by blast+
  note un = paging.unmap_single_spec [OF p this(1,3) run]
  have "is_present A ?e" "pte_paddr A ?e = target"
    using page_table_entry.page_present [OF paging.axioms(1) [OF p]]
      page_table_entry.page_paddr [OF paging.axioms(1) [OF p]] assms(4,5) \<open>is_page_aligned target\<close>
    by blast+
  moreover have "query_virtual A self' (phys m'') va' = query_virtual A self (phys m) va'" for va'
    using un [of va'] map [of va'] by (auto split: if_splits)
  ultimately show ?thesis using un [of va] run by auto
qed

theorem map_unmap_roundtrip_witness:
  "\<exists>self m m'. map_single sv39 alloc_frame 0x1000 0x80200000 PS_4K (Readable OR User) boot_table = (Ok (), self, m)
    \<and> unmap_single sv39 0x1000 (self, m) = (Ok (0x80200000, PS_4K), self, m')"
proof -
  obtain self m where run:
    "map_single sv39 alloc_frame 0x1000 0x80200000 PS_4K (Readable OR User) boot_table = (Ok (), self, m)"
    using boot_map by (metis prod.collapse)
  then show ?thesis
    using map_unmap_roundtrip [of sv39 "fst boot_table" "snd boot_table" "0x1000" "0x80200000" PS_4K
        "Readable OR User" self m] boot_inv [of sv39]
    by (auto simp: sv39_def gm_defs)
qed

text \<open>C11: \<^verbatim>\<open>unmap_single\<close> of a translated address removes the translation of the addresses of
  its page, whatever its size, and of no other; it answers the frame of the entry when the entry is
  present.\<close>

theorem unmap_single_correct:
  assumes "A = sv39 \<or> A = la64" and "native_inv A (self, m)"
    and "query_virtual A self (phys m) va = Ok (pa, flags, sz)"
    and "unmap_single A va (self, m) = (r, self', m')"
  shows "native_inv A (self', m')
    \<and> (r = Err NotMapped \<or> (\<exists>base. r = Ok (base, sz) \<and> pa = base OR (va AND (as_usize sz - 1))))
    \<and> (\<forall>va'. query_virtual A self' (phys m') va' =
        (if region A (size_level sz) va' = region A (size_level sz) va then Err NotMapped
         else query_virtual A self (phys m) va'))"
proof -
  note p = native_paging [OF assms(1)]
  obtain e l where l: "lookup A (phys m) (pt_root self) (indices A va) = Ok (e, l)"
      "translation A e l va = (pa, flags, sz)"
    using assms(3) paging.query_translation [OF p assms(2)] by (auto simp: outcome_simps)
  then obtain s where "walk A (phys m) (pt_root self) (indices A va) = Ok (s, l)"
    using paging.lookup_found [OF p] by blast
  note ls = paging.walk_target(2) [OF p this]
  have sz: "sz = level_size l" "pa = pte_paddr A e OR (va AND (as_usize sz - 1))"
    using l(2) by (auto simp: translation_def)
  note u = paging.unmap_single_spec [OF p assms(2) l(1) assms(4)]
  have "query_virtual A self' (phys m') va' =
      (if region A (size_level sz) va' = region A (size_level sz) va then Err NotMapped
       else query_virtual A self (phys m) va')" for va'
    using u [where va' = va'] unfolding sz(1) ls by blast
  then show ?thesis using u [where va' = va] sz by auto
qed

theorem unmap_single_correct_witness:
  "\<exists>self (m :: frame_allocator machine). query_virtual sv39 self (phys m) 0x1234 = Ok (0x80200234, Kernel OR Readable OR User, PS_4K)
    \<and> (\<exists>r self' m'. unmap_single sv39 0x1234 (self, m) = (r, self', m')
        \<and> query_virtual sv39 self' (phys m') 0x1234 = Err NotMapped)"
proof -
  obtain self m where run:
    "map_single sv39 alloc_frame 0x1000 0x80200000 PS_4K (Readable OR User) boot_table = (Ok (), self, m)"
    using boot_map by (metis prod.collapse)
  note q = boot_map_unmap_query [OF run]
  obtain r self' m' where un: "unmap_single sv39 0x1234 (self, m) = (r, self', m')" by (metis surj_pair)
  then have "query_virtual sv39 self' (phys m') 0x1234 = Err NotMapped"
    using unmap_single_correct [OF _ q un] by simp
  with un q(2) show ?thesis by blast
qed

text \<open>C12: \<^verbatim>\<open>remap_single\<close> of a translated address gives the addresses of its page the new frame
  and flags, keeps its size, and touches no other address.\<close>

theorem remap_single_correct:
  assumes "A = sv39 \<or> A = la64" and "native_inv A (self, m)"
    and "query_virtual A self (phys m) va = Ok (pa, old_flags, sz)"
    and "is_page_aligned target" and "unat target < 2 ^ PA_MAX_BITS A" and "flags \<noteq> 0"
    and "sz = PS_4K \<or> arch_leafable A flags"
    and "remap_single A va target flags (self, m) = (r, self', m')"
  shows "r = Ok sz \<and> native_inv A (self', m')
    \<and> (\<forall>va'. query_virtual A self' (phys m') va' =
        (if region A (size_level sz) va' = region A (size_level sz) va
         then Ok (target OR (va' AND (as_usize sz - 1)), arch_canon A flags, sz)
         else query_virtual A self (phys m) va'))"
proof -
  note p = native_paging [OF assms(1)]
  obtain e l where l: "lookup A (phys m) (pt_root self) (indices A va) = Ok (e, l)"
      "translation A e l va = (pa, old_flags, sz)"
    using assms(3) paging.query_translation [OF p assms(2)] by (auto simp: outcome_simps)
  then obtain s where s: "walk A (phys m) (pt_root self) (indices A va) = Ok (s, l)"
    using paging.lookup_found [OF p] by blast
  note ls = paging.walk_target(2) [OF p s]
  have sz: "sz = level_size l" using l(2) by (simp add: translation_def)
  have "l = 1 \<or> arch_leafable A flags" using assms(7) ls by (auto simp: sz)
  note u = paging.remap_single_spec [OF p assms(2) s assms(8,4-6) this]
  have "query_virtual A self' (phys m') va' =
      (if region A (size_level sz) va' = region A (size_level sz) va
       then Ok (target OR (va' AND (as_usize sz - 1)), arch_canon A flags, sz)
       else query_virtual A self (phys m) va')" for va'
    using u [where va' = va'] unfolding sz ls by blast
  then show ?thesis using u [where va' = va] sz by auto
qed

theorem remap_single_correct_witness:
  "\<exists>self (m :: frame_allocator machine) r self' m'. query_virtual sv39 self (phys m) 0x1234 = Ok (0x80200234, Kernel OR Readable OR User, PS_4K)
    \<and> remap_single sv39 0x1234 0x80300000 (Writable OR Readable) (self, m) = (r, self', m')
    \<and> query_virtual sv39 self' (phys m') 0x1001 = Ok (0x80300001, Kernel OR Readable OR Writable, PS_4K)"
proof -
  obtain self m where run:
    "map_single sv39 alloc_frame 0x1000 0x80200000 PS_4K (Readable OR User) boot_table = (Ok (), self, m)"
    using boot_map by (metis prod.collapse)
  note q = boot_map_unmap_query [OF run]
  obtain r self' m' where re: "remap_single sv39 0x1234 0x80300000 (Writable OR Readable) (self, m) = (r, self', m')"
    by (metis surj_pair)
  have "query_virtual sv39 self' (phys m') 0x1001 = Ok (0x80300001, Kernel OR Readable OR Writable, PS_4K)"
    using remap_single_correct [OF _ q _ _ _ _ re]
    by (simp add: is_page_aligned_def is_aligned_def PAGE_SIZE_def sv39_def gm_defs arch_canon_def
        rv64_canon_def region_def mask_eq_exp_minus_1)
  with q(2) re show ?thesis by blast
qed



text \<open>Frames are never cleared, so a table allocated after another one was dropped starts
  with the stale entries of the old one: after mapping one page in a fresh table, dropping it and
  allocating a new one, the new table translates an address nobody mapped, as a 1 GiB page.\<close>

theorem stale_translation:
  "\<exists>self m m1 self2 m2.
    map_single sv39 alloc_frame 0x1000 0x80200000 PS_4K (Readable OR User) boot_table = (Ok (), self, m)
    \<and> pt_drop dealloc self m = Some m1 \<and> pt_alloc alloc_frame m1 = Some (self2, m2)
    \<and> query_virtual sv39 self2 (phys m2) 0x40000000 = Ok (0x80200000, Kernel OR Readable OR User, PS_1G)"
  by (simp add: boot_table_eq run_simps pt_drop_def dealloc_def pt_alloc_def pt_from_borrowed_def
      query_virtual_def get_entry_def get_entry_internal_def rv64_is_huge_bit rv64_new_page_def
      rv64_to_arch_eq gm_defs rv_defs rv64_paddr_def rv64_flags_def rv64_from_arch_eq rv64_flags_internal_bits)

end
