(* ===== verification/Page_Access.thy ===== *)
theory Page_Access
  imports Page_Table
begin

text \<open>
  The second half of \<^verbatim>\<open>src/libraries/mmu-native/src/pt.rs\<close>: reading and writing memory
  through a page table frame by frame, the permission checks of user buffers, and the windows that
  map memory of another address space. The four inspection functions of the source run the same
  loop with different checks and callbacks; the loop is one definition here, over the query, the
  check and the callback. The callback gets the physical address and the length of the slice.
\<close>

section \<open>Bytes of memory\<close>

text \<open>A byte of memory is a byte of its 8-byte cell; both architectures are little-endian.\<close>

definition load_byte :: "memory \<Rightarrow> usize \<Rightarrow> u8" where
  "load_byte mem a = ucast (shr (mem (a - a mod 8)) (8 * unat (a mod 8)))"

definition store_byte :: "memory \<Rightarrow> usize \<Rightarrow> u8 \<Rightarrow> memory" where
  "store_byte mem a b =
     (let k = 8 * unat (a mod 8); c = a - a mod 8
      in mem(c := (mem c AND NOT (shl 0xFF k)) OR shl (ucast b) k))"

definition load_bytes :: "memory \<Rightarrow> usize \<Rightarrow> usize \<Rightarrow> u8 list" where
  "load_bytes mem a n = map (\<lambda>i. load_byte mem (a + of_nat i)) [0..<unat n]"

fun store_bytes :: "memory \<Rightarrow> usize \<Rightarrow> u8 list \<Rightarrow> memory" where
  "store_bytes mem a [] = mem"
| "store_bytes mem a (b # bs) = store_bytes (store_byte mem a b) (a + 1) bs"

section \<open>Permission checks\<close>

definition ensure_vaddr_valid :: "usize \<Rightarrow> (unit, MMUError) outcome" where
  "ensure_vaddr_valid vaddr = (if is_null vaddr then Err InvalidAddress else Ok ())"

definition ensure_linear_permission :: "usize \<Rightarrow> (unit, MMUError) outcome" where
  "ensure_linear_permission flags =
     (if \<not> contains_flags flags User then Err PrivilegeError else Ok ())"

definition ensure_permission :: "usize \<Rightarrow> usize \<Rightarrow> bool \<Rightarrow> (unit, MMUError) outcome" where
  "ensure_permission vaddr flags mutable =
     (if \<not> contains_flags flags User then Err PrivilegeError
      else if \<not> contains_flags flags Readable then Err (PageNotReadable vaddr)
      else if mutable \<and> \<not> contains_flags flags Writable then Err (PageNotWritable vaddr)
      else Ok ())"

section \<open>The inspection loop\<close>

text \<open>\<^verbatim>\<open>frame_remain_len\<close>: the bytes from an address to the end of its frame.\<close>

definition frame_remain_len :: "usize \<Rightarrow> PageSize \<Rightarrow> usize option" where
  "frame_remain_len paddr sz = do {
     frame_base \<leftarrow> align_down paddr (as_usize sz);
     d \<leftarrow> usub paddr frame_base;
     usub (as_usize sz) d
   }"

lemma word_and_split: "(x AND m) + (x AND NOT m) = x" for x m :: "'a::len word"
proof -
  have "(x AND m) AND (x AND NOT m) = 0" by (rule bit_word_eqI) (auto simp: bit_simps)
  then have "(x AND m) + (x AND NOT m) = (x AND m) OR (x AND NOT m)" by (rule disjunctive_add_eq_or)
  also have "\<dots> = x" by (rule bit_word_eqI) (auto simp: bit_simps)
  finally show ?thesis .
qed

lemma frame_remain_len_eq:
  assumes "frame_remain_len p sz = Some n"
  shows "n = as_usize sz - (p AND (as_usize sz - 1))" "p AND (as_usize sz - 1) < as_usize sz" "0 < n"
proof -
  let ?m = "as_usize sz - 1"
  have nz: "as_usize sz \<noteq> 0" and "n = as_usize sz - (p - (p AND NOT ?m))"
    using assms by (auto simp: frame_remain_len_def align_down_def is_power_of_two_def bind_eq_Some_conv
        assert_that_def usub_eq_Some split: if_splits)
  moreover have "p - (p AND NOT ?m) = p AND ?m" using word_and_split [of p ?m] by (simp add: algebra_simps)
  ultimately show n: "n = as_usize sz - (p AND ?m)" by simp
  have le: "p AND ?m \<le> ?m" by (rule word_and_le1)
  then show lt: "p AND ?m < as_usize sz" using nz by (simp add: less_eq_dec_iff)
  then show "0 < n" using n by (simp add: word_gt_0)
qed

text \<open>The query may depend on the state, since a write can reach the tables themselves.\<close>

function inspect_loop ::
  "('s \<Rightarrow> usize \<Rightarrow> (usize \<times> usize \<times> PageSize, PagingError) outcome) \<Rightarrow>
   (usize \<Rightarrow> (unit, MMUError) outcome) \<Rightarrow> (usize \<Rightarrow> usize \<Rightarrow> 's \<Rightarrow> bool \<times> 's) \<Rightarrow>
   usize \<Rightarrow> usize \<Rightarrow> 's \<Rightarrow> (unit, MMUError) outcome \<times> 's" where
  "inspect_loop query ensure callback checking_vaddr remaining_len s =
     (case map_err into_mmu_error (query s checking_vaddr) of
        Panic \<Rightarrow> (Panic, s)
      | Err e \<Rightarrow> (Err e, s)
      | Ok (paddr, flags, sz) \<Rightarrow>
          (case obind (ensure flags) (\<lambda>_. of_opt (frame_remain_len paddr sz)) of
             Panic \<Rightarrow> (Panic, s)
           | Err e \<Rightarrow> (Err e, s)
           | Ok frame_remain \<Rightarrow>
               (let available_len = min remaining_len frame_remain;
                    (continue, s) = callback paddr available_len s
                in if \<not> continue then (Ok (), s)
                else (case addr_add checking_vaddr frame_remain of
                        None \<Rightarrow> (Panic, s)
                      | Some checking_vaddr \<Rightarrow>
                          let remaining_len = remaining_len - available_len
                          in if remaining_len = 0 then (Ok (), s)
                          else inspect_loop query ensure callback checking_vaddr remaining_len s))))"
  by pat_completeness auto
termination
proof (relation "measure (\<lambda>(_, _, _, _, r, _). unat r)")
  fix query :: "'s \<Rightarrow> usize \<Rightarrow> (usize \<times> usize \<times> PageSize, PagingError) outcome"
    and ensure :: "usize \<Rightarrow> (unit, MMUError) outcome"
    and callback :: "usize \<Rightarrow> usize \<Rightarrow> 's \<Rightarrow> bool \<times> 's"
    and va r va' :: usize and s s' s'' :: 's and x y paddr flags sz fr avail c cc and r'
  assume fr: "obind (ensure flags) (\<lambda>_. of_opt (frame_remain_len paddr sz)) = Ok fr"
    and av: "avail = min r fr" and r': "r' = r - avail" "r' \<noteq> 0"
  have "0 < fr" using fr frame_remain_len_eq(3) by (auto simp: outcome_simps)
  moreover have "r \<noteq> 0" using r' av by auto
  ultimately have "0 < avail" "avail \<le> r" using av by (auto simp: min_def word_gt_0)
  then have "unat r' < unat r"
    using r'(1) by (simp add: unat_sub word_less_nat_alt word_le_nat_alt)
  then show "((query, ensure, callback, va', r', s''), (query, ensure, callback, va, r, s))
    \<in> measure (\<lambda>(_, _, _, _, r, _). unat r)" by simp
qed simp

declare inspect_loop.simps [simp del]

section \<open>Inspection and access\<close>

definition inspect_permission ::
  "pt_arch \<Rightarrow> page_table \<Rightarrow> memory \<Rightarrow> usize \<Rightarrow> usize \<Rightarrow> bool \<Rightarrow> (unit, MMUError) outcome" where
  "inspect_permission A self mem vaddr len mutable =
     obind (ensure_vaddr_valid vaddr) (\<lambda>_.
     fst (inspect_loop (\<lambda>_. query_virtual A self mem) (\<lambda>flags. ensure_permission vaddr flags mutable)
            (\<lambda>_ _ s. (True, s)) vaddr len ()))"

text \<open>The callback of \<^verbatim>\<open>inspect_framed\<close> sees the bytes of a slice; the one of
  \<^verbatim>\<open>inspect_framed_mut\<close> may replace them.\<close>

definition inspect_framed_internal ::
  "pt_arch \<Rightarrow> page_table \<Rightarrow> memory \<Rightarrow> usize \<Rightarrow> usize \<Rightarrow> (u8 list \<Rightarrow> usize \<Rightarrow> 's \<Rightarrow> bool \<times> 's) \<Rightarrow> 's \<Rightarrow>
   (unit, MMUError) outcome \<times> 's" where
  "inspect_framed_internal A self mem vaddr len callback s =
     sbind (ensure_vaddr_valid vaddr, s) (\<lambda>_ s.
     inspect_loop (\<lambda>_. query_virtual A self mem) (\<lambda>flags. ensure_permission vaddr flags False)
       (\<lambda>paddr n s. callback (load_bytes mem paddr n) n s) vaddr len s)"

definition inspect_framed_mut_internal ::
  "pt_arch \<Rightarrow> page_table \<Rightarrow> usize \<Rightarrow> usize \<Rightarrow> (u8 list \<Rightarrow> usize \<Rightarrow> 's \<Rightarrow> bool \<times> u8 list \<times> 's) \<Rightarrow>
   memory \<times> 's \<Rightarrow> (unit, MMUError) outcome \<times> memory \<times> 's" where
  "inspect_framed_mut_internal A self vaddr len callback s =
     sbind (ensure_vaddr_valid vaddr, s) (\<lambda>_ s.
     inspect_loop (\<lambda>(mem, _). query_virtual A self mem) (\<lambda>flags. ensure_permission vaddr flags True)
       (\<lambda>paddr n (mem, s).
          let (continue, slice, s) = callback (load_bytes mem paddr n) n s
          in (continue, store_bytes mem paddr slice, s))
       vaddr len s)"

definition inspect_bytes_through_linear ::
  "('s \<Rightarrow> usize \<Rightarrow> (usize \<times> usize \<times> PageSize, PagingError) outcome) \<Rightarrow> usize \<Rightarrow> usize \<Rightarrow>
   (usize \<Rightarrow> usize \<Rightarrow> 's \<Rightarrow> bool \<times> 's) \<Rightarrow> 's \<Rightarrow> (unit, MMUError) outcome \<times> 's" where
  "inspect_bytes_through_linear query vaddr len callback s =
     sbind (ensure_vaddr_valid vaddr, s) (\<lambda>_ s.
     inspect_loop query ensure_linear_permission callback vaddr len s)"

text \<open>\<^verbatim>\<open>read_bytes\<close> fills the front of the buffer; the bytes read so far are returned also when
  it fails.\<close>

definition read_bytes ::
  "pt_arch \<Rightarrow> page_table \<Rightarrow> memory \<Rightarrow> usize \<Rightarrow> usize \<Rightarrow> (unit, MMUError) outcome \<times> u8 list" where
  "read_bytes A self mem vaddr len =
     inspect_bytes_through_linear (\<lambda>_. query_virtual A self mem) vaddr len
       (\<lambda>paddr n buf. (True, buf @ load_bytes mem paddr n)) []"

definition write_bytes ::
  "pt_arch \<Rightarrow> page_table \<Rightarrow> memory \<Rightarrow> usize \<Rightarrow> u8 list \<Rightarrow> (unit, MMUError) outcome \<times> memory" where
  "write_bytes A self mem vaddr buf =
     (let (r, mem, _) =
        inspect_bytes_through_linear (\<lambda>(mem, _). query_virtual A self mem) vaddr
          (of_nat (length buf))
          (\<lambda>paddr n (mem, bytes_written).
             (True, store_bytes mem paddr (take (unat n) (drop bytes_written buf)),
              bytes_written + unat n))
          (mem, 0)
      in (r, mem))"

text \<open>A mapped buffer is the address and length of its slice.\<close>

definition map_buffer_internal ::
  "pt_arch \<Rightarrow> page_table \<Rightarrow> memory \<Rightarrow> usize \<Rightarrow> usize \<Rightarrow> (usize \<times> usize, MMUError) outcome" where
  "map_buffer_internal A self mem vaddr len =
     obind (inspect_permission A self mem vaddr len False) (\<lambda>_. Ok (vaddr, len))"

definition map_buffer_mut_internal ::
  "pt_arch \<Rightarrow> page_table \<Rightarrow> memory \<Rightarrow> usize \<Rightarrow> usize \<Rightarrow> bool \<Rightarrow> (usize \<times> usize, MMUError) outcome" where
  "map_buffer_mut_internal A self mem vaddr len force_mut =
     obind (inspect_permission A self mem vaddr len True) (\<lambda>_. Ok (vaddr, len))"

definition translate_phys :: "usize \<Rightarrow> usize \<Rightarrow> (usize \<times> usize, MMUError) outcome" where
  "translate_phys paddr len = Ok (paddr, len)"

section \<open>Mapping memory of another address space\<close>

text \<open>The source of a cross mapping is \<^verbatim>\<open>dyn IMMU\<close>; only its \<^verbatim>\<open>query_virtual\<close> is used.
  The loop collects the frames; it returns them with the offset in the first page and the offset
  of the last iteration.\<close>

function cross_loop ::
  "(usize \<Rightarrow> (usize \<times> usize \<times> PageSize, PagingError) outcome) \<Rightarrow> usize \<Rightarrow> usize \<Rightarrow> bool \<Rightarrow> usize \<Rightarrow>
   (usize \<times> PageSize) list \<Rightarrow> usize option \<Rightarrow>
   ((usize \<times> PageSize) list \<times> usize \<times> usize, MMUError) outcome" where
  "cross_loop query vaddr end_va mutable checking pages slice_offset =
     obind (map_err into_mmu_error (query checking)) (\<lambda>(phy, permission, sz).
     obind (ensure_permission vaddr permission mutable) (\<lambda>_.
     let pages = pages @ [(phy, sz)]
     in obind (of_opt (urem vaddr (as_usize sz))) (\<lambda>page_offset.
     let first = (case slice_offset of None \<Rightarrow> page_offset | Some o1 \<Rightarrow> o1)
     in obind (of_opt (addr_sub checking page_offset)) (\<lambda>base.
     obind (of_opt (addr_add base (as_usize sz))) (\<lambda>next_page.
       if end_va \<le> next_page then Ok (pages, first, page_offset)
       else cross_loop query vaddr end_va mutable next_page pages (Some first))))))"
  by pat_completeness auto
termination
proof (relation "measure (\<lambda>(_, _, _, _, c, _, _). 2 ^ 64 - unat c)")
  fix vaddr chk page_offset base next_page :: usize and sz :: PageSize
    and query :: "usize \<Rightarrow> (usize \<times> usize \<times> PageSize, PagingError) outcome"
    and end_va mutable pages pages' o1 first
  assume "of_opt (urem vaddr (as_usize sz)) = (Ok page_offset :: (usize, MMUError) outcome)"
    and "of_opt (addr_sub chk page_offset) = (Ok base :: (usize, MMUError) outcome)"
    and "of_opt (addr_add base (as_usize sz)) = (Ok next_page :: (usize, MMUError) outcome)"
  then have run: "urem vaddr (as_usize sz) = Some page_offset" "usub chk page_offset = Some base"
      "uadd base (as_usize sz) = Some next_page"
    by (auto simp: outcome_simps addr_sub_def addr_add_def)
  then have "page_offset = vaddr mod as_usize sz" "as_usize sz \<noteq> 0" "page_offset \<le> chk"
    by (simp_all add: checked_simps)
  moreover from this have "unat page_offset < unat (as_usize sz)"
    by (simp add: unat_mod_distrib unat_gt_0)
  moreover note unat_usub [OF run(2)] unat_uadd [OF run(3)]
  ultimately have "unat chk < unat next_page" by (simp add: word_le_nat_alt)
  then show "((query, vaddr, end_va, mutable, next_page, pages', Some first),
      (query, vaddr, end_va, mutable, chk, pages, o1)) \<in> measure (\<lambda>(_, _, _, _, c, _, _). 2 ^ 64 - unat c)"
    using unat_lt_u64 [of next_page] by simp
qed simp

declare cross_loop.simps [simp del]

fun cross_map_loop ::
  "pt_arch \<Rightarrow> 'f allocator \<Rightarrow> usize \<Rightarrow> usize \<Rightarrow> usize \<Rightarrow> (usize \<times> PageSize) list \<Rightarrow> 'f pt_state \<Rightarrow>
   (unit, MMUError) outcome \<times> 'f pt_state" where
  "cross_map_loop A alloc permission window off [] st = (Ok (), st)"
| "cross_map_loop A alloc permission window off ((phy, sz) # rest) st =
     (case addr_add window off of
        None \<Rightarrow> (Panic, st)
      | Some va \<Rightarrow>
          (case map_single A alloc va phy sz permission st of
             (Ok _, st) \<Rightarrow>
               (case uadd off (as_usize sz) of
                  None \<Rightarrow> (Panic, st)
                | Some off \<Rightarrow> cross_map_loop A alloc permission window off rest st)
           | (_, st) \<Rightarrow> (Panic, st)))"

text \<open>Both cross-mapping functions, given the mutability, the permissions of the new mappings and
  which of the two offsets locates the slice. A guard removes the window again when the walk over
  the source fails.\<close>

definition map_cross ::
  "bool \<Rightarrow> usize \<Rightarrow> (usize \<Rightarrow> usize \<Rightarrow> usize) \<Rightarrow> pt_arch \<Rightarrow> 'f allocator \<Rightarrow>
   (usize \<Rightarrow> (usize \<times> usize \<times> PageSize, PagingError) outcome) \<Rightarrow> usize \<Rightarrow> usize \<Rightarrow> 'f pt_state \<Rightarrow>
   (usize \<times> usize, MMUError) outcome \<times> 'f pt_state" where
  "map_cross mutable permission pick A alloc source vaddr len = (\<lambda>(self, m).
     case allocation self of
       None \<Rightarrow> (Err MMUCanNotModify, self, m)
     | Some al \<Rightarrow>
         (case do { (window, cross) \<leftarrow> cross_alloc (cross_mappings al) len mutable;
                    e \<leftarrow> addr_add vaddr len; Some (window, cross, e) } of
            None \<Rightarrow> (Panic, self, m)
          | Some (window, cross, e) \<Rightarrow>
              (case cross_loop source vaddr e mutable vaddr [] None of
                 Panic \<Rightarrow> (Panic, self, m)
               | Err x \<Rightarrow>
                   (case cross_remove cross window of
                      None \<Rightarrow> (Panic, self, m)
                    | Some (_, cross) \<Rightarrow>
                        (Err x, self\<lparr>allocation := Some (al\<lparr>cross_mappings := cross\<rparr>)\<rparr>, m))
               | Ok (pages, slice_offset, page_offset) \<Rightarrow>
                   sbind (cross_map_loop A alloc permission window 0 pages
                            (self\<lparr>allocation := Some (al\<lparr>cross_mappings := cross\<rparr>)\<rparr>, m))
                     (\<lambda>_ st. (Ok (window + pick slice_offset page_offset, len), st)))))"

definition map_cross_internal ::
  "pt_arch \<Rightarrow> 'f allocator \<Rightarrow> (usize \<Rightarrow> (usize \<times> usize \<times> PageSize, PagingError) outcome) \<Rightarrow> usize \<Rightarrow> usize \<Rightarrow>
   'f pt_state \<Rightarrow> (usize \<times> usize, MMUError) outcome \<times> 'f pt_state" where
  "map_cross_internal = map_cross False (Readable OR Kernel) (\<lambda>slice_offset page_offset. slice_offset)"

definition map_cross_mut_internal ::
  "pt_arch \<Rightarrow> 'f allocator \<Rightarrow> (usize \<Rightarrow> (usize \<times> usize \<times> PageSize, PagingError) outcome) \<Rightarrow> usize \<Rightarrow> usize \<Rightarrow>
   'f pt_state \<Rightarrow> (usize \<times> usize, MMUError) outcome \<times> 'f pt_state" where
  "map_cross_mut_internal =
     map_cross True (Readable OR Writable OR Kernel) (\<lambda>slice_offset page_offset. page_offset)"

definition unmap_cross :: "pt_arch \<Rightarrow> usize \<Rightarrow> 'f pt_state \<Rightarrow> 'f pt_state option" where
  "unmap_cross A vaddr = (\<lambda>(self, m). do {
     al \<leftarrow> allocation self;
     (window, cross) \<leftarrow> cross_remove (cross_mappings al) vaddr;
     let self = self\<lparr>allocation := Some (al\<lparr>cross_mappings := cross\<rparr>)\<rparr>;
     (case window of
        None \<Rightarrow> Some (self, m)
      | Some w \<Rightarrow>
          (case unmap_single A (cw_vaddr w) (self, m) of
             (Panic, _) \<Rightarrow> None
           | (_, st) \<Rightarrow> Some st))
   })"

section \<open>Lemmas on bytes\<close>

lemma bit_load_byte: "bit (load_byte mem a) n \<longleftrightarrow> n < 8 \<and> bit (mem (a - a mod 8)) (8 * unat (a mod 8) + n)"
  by (auto simp: load_byte_def bit_simps)

lemma byte_offset: "unat (a mod 8 :: usize) < 8"
  by (simp add: unat_mod_distrib)

lemma bit_store_cell:
  "bit ((c AND NOT (shl 0xFF k)) OR shl (ucast (b :: u8)) k :: u64) j \<longleftrightarrow>
    (if k \<le> j \<and> j < k + 8 \<and> j < 64 then bit b (j - k) else bit c j)"
proof -
  have eq: "(0xFF :: u64) = mask 8" by (simp add: mask_eq_exp_minus_1)
  show ?thesis
    using bit_imp_le_length [of c j] bit_imp_le_length [of b "j - k"] unfolding eq
    by (auto simp: bit_simps)
qed

lemma load_store_same [simp]: "load_byte (store_byte mem a b) a = b"
proof (rule bit_word_eqI)
  fix n assume "n < LENGTH(8)"
  then show "bit (load_byte (store_byte mem a b) a) n = bit b n"
    using byte_offset [of a] by (simp add: bit_load_byte store_byte_def Let_def bit_store_cell)
qed

lemma same_cell: "a - a mod 8 = a' - a' mod 8 \<Longrightarrow> a mod 8 = a' mod 8 \<Longrightarrow> a = a'" for a a' :: usize
  by (metis diff_add_cancel)

lemma load_store_other:
  assumes "a' \<noteq> a"
  shows "load_byte (store_byte mem a b) a' = load_byte mem a'"
proof (rule bit_word_eqI)
  fix n assume n: "n < LENGTH(8)"
  show "bit (load_byte (store_byte mem a b) a') n = bit (load_byte mem a') n"
  proof (cases "a' - a' mod 8 = a - a mod 8")
    case True
    then have "a' mod 8 \<noteq> a mod 8" using same_cell assms by blast
    then have "unat (a' mod 8) \<noteq> unat (a mod 8)" by (simp add: word_unat_eq_iff)
    then have "\<not> (8 * unat (a mod 8) \<le> 8 * unat (a' mod 8) + n \<and> 8 * unat (a' mod 8) + n < 8 * unat (a mod 8) + 8)"
      using n by auto
    then show ?thesis using True n by (auto simp: bit_load_byte store_byte_def Let_def bit_store_cell)
  qed (simp add: bit_load_byte store_byte_def Let_def)
qed

lemma store_byte_cell: "s \<noteq> a - a mod 8 \<Longrightarrow> store_byte mem a b s = mem s"
  by (simp add: store_byte_def Let_def)

section \<open>Reading and writing pages\<close>

text \<open>What a translation by 4 KiB pages satisfies: the addresses of a page go to consecutive
  physical addresses.\<close>

definition paged :: "(usize \<Rightarrow> (usize \<times> usize \<times> PageSize, PagingError) outcome) \<Rightarrow> bool" where
  "paged q \<longleftrightarrow> (\<forall>va pa fl. q va = Ok (pa, fl, PS_4K) \<longrightarrow> pa mod 4096 = va mod 4096 \<and>
     (\<forall>i. unat va mod 4096 + i < 4096 \<longrightarrow> q (va + of_nat i) = Ok (pa + of_nat i, fl, PS_4K)))"

text \<open>The physical address of an address.\<close>

definition phys_of :: "(usize \<Rightarrow> (usize \<times> usize \<times> PageSize, PagingError) outcome) \<Rightarrow> usize \<Rightarrow> usize" where
  "phys_of q va = (case q va of Ok (pa, _, _) \<Rightarrow> pa | _ \<Rightarrow> 0)"

definition user_range :: "(usize \<Rightarrow> (usize \<times> usize \<times> PageSize, PagingError) outcome) \<Rightarrow> usize \<Rightarrow> nat \<Rightarrow> bool" where
  "user_range q va n \<longleftrightarrow> unat va + n + 4096 \<le> 2 ^ 64 \<and>
     (\<forall>i<n. \<exists>fl. q (va + of_nat i) = Ok (phys_of q (va + of_nat i), fl, PS_4K) \<and> contains_flags fl User)"

lemma frame_remain_4k: "frame_remain_len pa PS_4K = Some (4096 - pa mod 4096)"
proof -
  have "align_down pa 4096 = Some (pa - pa mod 4096)" using align_down_exp [of 12 pa] by simp
  moreover have "pa - pa mod 4096 \<le> pa" "pa mod 4096 \<le> (4096 :: usize)"
    by (simp_all add: word_le_nat_alt unat_mod_distrib unat_sub less_imp_le)
  ultimately show ?thesis by (simp add: frame_remain_len_def usub_def)
qed

lemma unat_frame_remain: "unat (4096 - (pa :: usize) mod 4096) = 4096 - unat pa mod 4096"
  by (simp add: unat_sub word_le_nat_alt unat_mod_distrib less_imp_le)

text \<open>One step of the loop over user pages.\<close>

lemma user_range_first:
  assumes "user_range q va n" "0 < n"
  obtains fl where "q va = Ok (phys_of q va, fl, PS_4K)" "contains_flags fl User"
proof -
  have "\<exists>fl. q (va + of_nat 0) = Ok (phys_of q (va + of_nat 0), fl, PS_4K) \<and> contains_flags fl User"
    using assms unfolding user_range_def by blast
  then show thesis using that by auto
qed

lemma user_range_step:
  assumes q: "paged q" and r: "user_range q va n" and fr: "fr = 4096 - unat va mod 4096"
  shows "0 < n \<Longrightarrow> i < min n fr \<Longrightarrow> phys_of q (va + of_nat i) = phys_of q va + of_nat i"
    and "fr < n \<Longrightarrow> user_range q (va + of_nat fr) (n - fr)"
    and "0 < fr" "fr \<le> 4096"
proof -
  show "0 < fr" "fr \<le> 4096" using fr by simp_all
  show "phys_of q (va + of_nat i) = phys_of q va + of_nat i" if n0: "0 < n" and i: "i < min n fr"
  proof -
    obtain fl where fl: "q va = Ok (phys_of q va, fl, PS_4K)"
      using user_range_first [OF r n0] by blast
    then have "q (va + of_nat i) = Ok (phys_of q va + of_nat i, fl, PS_4K)"
      using q i fr by (auto simp: paged_def)
    then show ?thesis by (simp add: phys_of_def)
  qed
  show "user_range q (va + of_nat fr) (n - fr)" if "fr < n"
  proof -
    have u: "unat (va + of_nat fr) = unat va + fr"
      using r that by (simp add: user_range_def unat_add_lem [THEN iffD1] unat_of_nat)
    have "\<exists>fl. q (va + of_nat fr + of_nat i) = Ok (phys_of q (va + of_nat fr + of_nat i), fl, PS_4K)
        \<and> contains_flags fl User" if "i < n - fr" for i
      using r that by (auto simp: user_range_def add.assoc dest!: spec [of _ "fr + i"])
    then show ?thesis using u r that by (auto simp: user_range_def)
  qed
qed

lemma inspect_step:
  assumes q: "paged q" and r: "user_range q va n" and n: "unat len = n" "0 < n"
    and qs: "query s = q" and cb: "\<And>p k s. fst (callback p k s)"
    and fr: "fr = 4096 - unat va mod 4096"
  shows "inspect_loop query ensure_linear_permission callback va len s =
    (if n \<le> fr then (Ok (), snd (callback (phys_of q va) len s))
     else inspect_loop query ensure_linear_permission callback (va + of_nat fr) (len - of_nat fr)
       (snd (callback (phys_of q va) (of_nat fr) s)))"
proof -
  obtain fl where fl: "q va = Ok (phys_of q va, fl, PS_4K)" "contains_flags fl User"
    using user_range_first [OF r n(2)] by blast
  have m: "phys_of q va mod 4096 = va mod 4096" using q fl(1) by (auto simp: paged_def)
  have f: "4096 - va mod 4096 = (of_nat fr :: usize)"
    using arg_cong [OF unat_frame_remain [of va], of "of_nat :: nat \<Rightarrow> usize"] fr by simp
  have uf: "unat (of_nat fr :: usize) = fr" by (metis f fr unat_frame_remain)
  have add: "addr_add va (of_nat fr) = Some (va + of_nat fr)"
    using r user_range_step(4) [OF q r fr] n(2) by (simp add: addr_add_def uadd_def user_range_def uf)
  have le: "len \<le> of_nat fr \<longleftrightarrow> n \<le> fr" using uf n(1) by (simp add: word_le_nat_alt)
  obtain c s' where c: "callback (phys_of q va) (min len (of_nat fr)) s = (True, s')"
    using cb [of "phys_of q va" "min len (of_nat fr)" s] by (cases "callback (phys_of q va) (min len (of_nat fr)) s") auto
  have z: "len - min len (of_nat fr) = 0 \<longleftrightarrow> n \<le> fr" using le by (auto simp: min_def)
  show ?thesis
    using fl m f add c z le qs
    by (subst inspect_loop.simps)
      (auto simp: ensure_linear_permission_def frame_remain_4k min_def split: if_splits)
qed


lemma load_bytes_range:
  assumes "paged q" "user_range q va n" "fr = 4096 - unat va mod 4096" "unat k \<le> min n fr" "0 < n"
  shows "load_bytes mem (phys_of q va) k = map (\<lambda>i. load_byte mem (phys_of q (va + of_nat i))) [0..<unat k]"
  using assms user_range_step(1) [OF assms(1-3)] by (auto simp: load_bytes_def)

lemma upt_split:
  assumes "k \<le> n"
  shows "map f [0..<n] = map f [0..<k] @ map (\<lambda>i. f (k + i)) [0..<n - k]"
proof -
  have "[k..<n] = map (\<lambda>i. k + i) [0..<n - k]"
    using map_add_upt [of k "n - k"] assms by (simp add: add.commute)
  then show ?thesis using upt_add_eq_append [of 0 k "n - k"] assms by (simp add: comp_def)
qed

lemma read_loop_spec:
  "paged q \<Longrightarrow> user_range q va n \<Longrightarrow> unat len = n \<Longrightarrow> 0 < n \<Longrightarrow>
   inspect_loop (\<lambda>_. q) ensure_linear_permission (\<lambda>p k buf. (True, buf @ load_bytes mem p k)) va len buf =
   (Ok (), buf @ map (\<lambda>i. load_byte mem (phys_of q (va + of_nat i))) [0..<n])"
proof (induction n arbitrary: va len buf rule: less_induct)
  case (less n)
  define fr where "fr = 4096 - unat va mod 4096"
  note st = user_range_step [OF less.prems(1,2) fr_def]
  have uf: "unat (of_nat fr :: usize) = fr" using st(4) by (simp add: unat_of_nat)
  note step = inspect_step [where query = "\<lambda>_. q" and s = buf
      and callback = "\<lambda>p k buf. (True, buf @ load_bytes mem p k)", OF less.prems refl _ fr_def]
  note ld = load_bytes_range [OF less.prems(1,2) fr_def _ less.prems(4)]
  show ?case
  proof (cases "n \<le> fr")
    case True
    then show ?thesis using ld [of len mem] less.prems(3) by (subst step) simp_all
  next
    case False
    have ul: "unat (len - of_nat fr) = n - fr"
      using False less.prems(3) uf by (simp add: unat_sub word_le_nat_alt)
    have "inspect_loop (\<lambda>_. q) ensure_linear_permission (\<lambda>p k buf. (True, buf @ load_bytes mem p k))
        (va + of_nat fr) (len - of_nat fr) b =
        (Ok (), b @ map (\<lambda>i. load_byte mem (phys_of q (va + of_nat fr + of_nat i))) [0..<n - fr])" for b
      using less.IH [of "n - fr" "va + of_nat fr" "len - of_nat fr"] less.prems(1) False st(2,3) ul by simp
    then show ?thesis
      using False ld [of "of_nat fr" mem] uf
      by (subst step) (simp_all add: upt_split [of fr n] add.assoc)
  qed
qed

text \<open>The memory after the bytes of a buffer were stored at the addresses a translation gives.\<close>

fun store_at :: "(nat \<Rightarrow> usize) \<Rightarrow> memory \<Rightarrow> u8 list \<Rightarrow> memory" where
  "store_at f mem [] = mem"
| "store_at f mem (b # bs) = store_at (\<lambda>i. f (Suc i)) (store_byte mem (f 0) b) bs"

lemma store_at_append:
  "store_at f mem (xs @ ys) = store_at (\<lambda>i. f (length xs + i)) (store_at f mem xs) ys"
  by (induction xs arbitrary: f mem) simp_all

lemma store_at_cong: "(\<And>i. i < length bs \<Longrightarrow> f i = g i) \<Longrightarrow> store_at f mem bs = store_at g mem bs"
proof (induction bs arbitrary: f g mem)
  case (Cons b bs)
  have "store_at (\<lambda>i. f (Suc i)) m bs = store_at (\<lambda>i. g (Suc i)) m bs" for m
    by (rule Cons.IH) (simp add: Cons.prems)
  moreover have "f 0 = g 0" by (simp add: Cons.prems)
  ultimately show ?case by simp
qed simp

lemma store_bytes_at: "store_bytes mem a bs = store_at (\<lambda>i. a + of_nat i) mem bs"
proof (induction bs arbitrary: mem a)
  case (Cons b bs)
  have "(\<lambda>i. a + 1 + of_nat i) = (\<lambda>i. a + of_nat (Suc i))" by (simp add: fun_eq_iff)
  then show ?case using Cons by simp
qed simp

lemma store_at_other: "(\<And>i. i < length bs \<Longrightarrow> f i \<noteq> a) \<Longrightarrow> load_byte (store_at f mem bs) a = load_byte mem a"
proof (induction bs arbitrary: f mem)
  case (Cons b bs)
  have "load_byte (store_at (\<lambda>i. f (Suc i)) (store_byte mem (f 0) b) bs) a = load_byte (store_byte mem (f 0) b) a"
    using Cons.prems by (intro Cons.IH) auto
  also have "\<dots> = load_byte mem a" using Cons.prems [of 0] by (intro load_store_other) auto
  finally show ?case by simp
qed simp

lemma store_at_load:
  "(\<And>i j. i < j \<Longrightarrow> j < length bs \<Longrightarrow> f i \<noteq> f j) \<Longrightarrow> k < length bs \<Longrightarrow> load_byte (store_at f mem bs) (f k) = bs ! k"
proof (induction bs arbitrary: f mem k)
  case (Cons b bs)
  show ?case
  proof (cases k)
    case 0
    have "load_byte (store_at (\<lambda>i. f (Suc i)) (store_byte mem (f 0) b) bs) (f 0) = load_byte (store_byte mem (f 0) b) (f 0)"
      by (rule store_at_other) (use Cons.prems(1) in fastforce)
    then show ?thesis using 0 by simp
  next
    case (Suc j)
    then show ?thesis using Cons.IH [of "\<lambda>i. f (Suc i)" j] Cons.prems by auto
  qed
qed simp

lemma store_at_cell:
  "(\<And>i. i < length bs \<Longrightarrow> s \<noteq> f i - f i mod 8) \<Longrightarrow> store_at f mem bs s = mem s"
proof (induction bs arbitrary: f mem)
  case (Cons b bs)
  have "store_at (\<lambda>i. f (Suc i)) (store_byte mem (f 0) b) bs s = store_byte mem (f 0) b s"
    using Cons.prems by (intro Cons.IH) auto
  then show ?case using Cons.prems [of 0] by (simp add: store_byte_cell)
qed simp

lemma write_loop_spec:
  assumes Q: "\<And>mem k. k \<le> length buf \<Longrightarrow> query (store_at (\<lambda>i. phys_of q (va0 + of_nat i)) mem0 (take k buf), k) = q"
  shows "paged q \<Longrightarrow> user_range q va n \<Longrightarrow> unat len = n \<Longrightarrow> 0 < n \<Longrightarrow> off + n = length buf \<Longrightarrow>
   va = va0 + of_nat off \<Longrightarrow> mem = store_at (\<lambda>i. phys_of q (va0 + of_nat i)) mem0 (take off buf) \<Longrightarrow>
   inspect_loop query ensure_linear_permission
     (\<lambda>p k (mem, w). (True, store_bytes mem p (take (unat k) (drop w buf)), w + unat k)) va len (mem, off) =
   (Ok (), store_at (\<lambda>i. phys_of q (va0 + of_nat i)) mem0 buf, length buf)"
proof (induction n arbitrary: va len off mem rule: less_induct)
  case (less n)
  let ?cb = "\<lambda>p k (mem, w). (True, store_bytes mem p (take (unat k) (drop w buf)), w + unat k)"
  let ?S = "\<lambda>k. store_at (\<lambda>i. phys_of q (va0 + of_nat i)) mem0 (take k buf)"
  define fr where "fr = 4096 - unat va mod 4096"
  note st = user_range_step [OF less.prems(1,2) fr_def]
  have uf: "unat (of_nat fr :: usize) = fr" using st(4) by (simp add: unat_of_nat)
  have qs: "query (mem, off) = q" using Q less.prems(5,7) by simp
  have cb: "fst (?cb p k s)" for p k s by (cases s) simp
  note step = inspect_step [where query = query and s = "(mem, off)" and callback = ?cb, OF less.prems(1-4) qs cb fr_def]
  have chunk: "store_bytes (?S off) (phys_of q va) (take k (drop off buf)) = ?S (off + k)"
    if k: "k \<le> min n fr" for k
  proof -
    have "store_bytes (?S off) (phys_of q va) (take k (drop off buf)) =
        store_at (\<lambda>i. phys_of q (va0 + of_nat (off + i))) (?S off) (take k (drop off buf))"
      unfolding store_bytes_at
    proof (rule store_at_cong)
      fix i assume "i < length (take k (drop off buf))"
      then show "phys_of q va + of_nat i = phys_of q (va0 + of_nat (off + i))"
        using st(1) [of i] k less.prems(4,6) by (simp add: add.assoc)
    qed
    moreover have "length (take off buf) = off" using less.prems(5) by simp
    ultimately show ?thesis
      using store_at_append [of "\<lambda>i. phys_of q (va0 + of_nat i)" mem0 "take off buf" "take k (drop off buf)"]
      by (simp add: take_add)
  qed
  show ?case
  proof (cases "n \<le> fr")
    case True
    then show ?thesis
      using chunk [of n] less.prems(3,5,7) by (subst step) simp
  next
    case False
    have ul: "unat (len - of_nat fr) = n - fr"
      using False less.prems(3) uf by (simp add: unat_sub word_le_nat_alt)
    have "inspect_loop query ensure_linear_permission ?cb (va + of_nat fr) (len - of_nat fr) (?S (off + fr), off + fr) =
       (Ok (), store_at (\<lambda>i. phys_of q (va0 + of_nat i)) mem0 buf, length buf)"
      using less.prems False st(2,3) ul
      by (intro less.IH [of "n - fr"]) (auto simp: add.assoc)
    then show ?thesis
      using False chunk [of fr] uf less.prems(7) by (subst step) simp
  qed
qed

section \<open>Access through a native table\<close>

lemma or_page:
  assumes "is_page_aligned b"
  shows "b OR (x AND 4095) = b + x mod 4096" "(b + x mod 4096) mod 4096 = x mod 4096"
proof -
  have m: "x AND 4095 = x mod 4096" using take_bit_eq_mask [of 12 x] take_bit_eq_mod [of 12 x]
    by (simp add: mask_eq_exp_minus_1)
  have ab: "n < 12 \<Longrightarrow> \<not> bit b n" for n using aligned_bit [OF assms, of n] by auto
  have z: "b AND (x AND mask 12) = 0"
    using ab by (intro bit_word_eqI) (auto simp: bit_simps)
  then show "b OR (x AND 4095) = b + x mod 4096"
    using disjunctive_add_eq_or [OF z] m by (simp add: mask_eq_exp_minus_1)
  have "take_bit 12 (b OR (x AND mask 12)) = take_bit 12 x"
    using ab by (intro bit_word_eqI) (auto simp: bit_simps)
  then show "(b + x mod 4096) mod 4096 = x mod 4096"
    using disjunctive_add_eq_or [OF z] m by (simp add: take_bit_eq_mod mask_eq_exp_minus_1)
qed

lemma same_page:
  fixes va :: usize
  assumes "unat va mod 4096 + i < 4096"
  shows "(va + of_nat i) mod 4096 = va mod 4096 + of_nat i"
    and "(va + of_nat i) - (va + of_nat i) mod PAGE_SIZE = va - va mod PAGE_SIZE"
proof -
  have ui: "unat (of_nat i :: usize) = i" using assms by (simp add: unat_of_nat)
  have "unat va div 4096 < 4503599627370496"
    using unat_lt_u64 [of va] by (simp add: div_less_iff_less_mult)
  moreover have "unat va = 4096 * (unat va div 4096) + unat va mod 4096" by (simp only: mult_div_mod_eq)
  ultimately have "unat va + i < 18446744073709551616" using assms by linarith
  then have ua: "unat (va + of_nat i) = unat va + i"
    using unat_add_lem [of va "of_nat i"] ui by simp
  have "unat (va mod 4096 + of_nat i) = unat va mod 4096 + i"
    using unat_add_lem [of "va mod 4096" "of_nat i"] assms ui by (simp add: unat_mod_distrib)
  moreover have "unat ((va + of_nat i) mod 4096) = unat va mod 4096 + i"
    using ua assms mod_add_left_eq [of "unat va" 4096 i] by (simp add: unat_mod_distrib del: mod_add_left_eq)
  ultimately show m: "(va + of_nat i) mod 4096 = va mod 4096 + of_nat i"
    by (simp add: word_unat_eq_iff)
  then show "(va + of_nat i) - (va + of_nat i) mod PAGE_SIZE = va - va mod PAGE_SIZE"
    by (simp add: PAGE_SIZE_def)
qed

context paging
begin

lemma native_paged:
  assumes inv: "pt_inv A invar held frames (self, m)"
  shows "paged (query_virtual A self (phys m))"
  unfolding paged_def
proof (intro allI impI)
  fix va pa fl assume "query_virtual A self (phys m) va = Ok (pa, fl, PS_4K)"
  then obtain e l where l: "lookup A (phys m) (pt_root self) (indices A va) = Ok (e, l)"
      "translation A e l va = (pa, fl, PS_4K)"
    using query_translation [OF inv] by (auto simp: outcome_simps)
  then obtain s where "walk A (phys m) (pt_root self) (indices A va) = Ok (s, l)"
    using lookup_found by blast
  then have "l = 1" using walk_target(2) l(2) by (fastforce simp: translation_def)
  let ?b = "pte_paddr A e"
  have al: "is_page_aligned ?b" by (rule paddr_aligned)
  have tr: "translation A e 1 x = (?b + x mod 4096, fl, PS_4K)" for x
    using l(2) \<open>l = 1\<close> or_page(1) [OF al] by (auto simp: translation_def)
  then have pa: "pa = ?b + va mod 4096" using l(2) \<open>l = 1\<close> by simp
  have "query_virtual A self (phys m) (va + of_nat i) = Ok (pa + of_nat i, fl, PS_4K)"
    if "unat va mod 4096 + i < 4096" for i
  proof -
    have "indices A (va + of_nat i) = indices A va"
      using same_page(2) [OF that] by (metis indices_page_down)
    then show ?thesis
      using query_translation [OF inv, of "va + of_nat i"] l(1) \<open>l = 1\<close> tr pa same_page(1) [OF that]
      by (simp add: add.assoc)
  qed
  then show "pa mod 4096 = va mod 4096 \<and> (\<forall>i. unat va mod 4096 + i < 4096 \<longrightarrow>
      query_virtual A self (phys m) (va + of_nat i) = Ok (pa + of_nat i, fl, PS_4K))"
    using or_page(2) [OF al] pa by simp
qed

lemma reads_owned:
  assumes "pt_tree A mem r own" "s \<in> reads A mem r (indices A va)"
  shows "s \<in> \<Union>(cells ` own)"
proof -
  obtain n t where n: "n < LEVELS A" "resolve A mem r (take n (indices A va)) = Some t"
      "s = entry_ref t (indices A va ! n)"
    using reads_resolve [OF assms(2)] length_indices [OF levels] by metis
  have "t \<in> own"
    using pt_treeD(3) [OF assms(1) _ _ n(2)] n(1) length_indices [OF levels, of va] by simp
  moreover have "indices A va ! n < 512"
    using indices_valid [of A va] n(1) length_indices [OF levels, of va] by (auto simp: valid_path_def)
  ultimately show ?thesis using n(3) by (auto simp: cells_def)
qed

lemma query_frame:
  assumes inv: "pt_inv A invar held frames (self, m)"
    and same: "\<And>s. s \<in> \<Union>(cells ` owned self) \<Longrightarrow> mem' s = phys m s"
  shows "query_virtual A self mem' va = query_virtual A self (phys m) va"
proof -
  note tree = pt_invD(1) [OF inv]
  have "lookup A mem' (pt_root self) (indices A va) = lookup A (phys m) (pt_root self) (indices A va)"
    by (rule lookup_cong) (use reads_owned [OF tree] same in blast)
  then show ?thesis using query_lookup [OF raw_root [OF tree]] by simp
qed

end

lemma cell_page:
  assumes "is_page_aligned f" "j < 512" "entry_ref f j = a - a mod 8"
  shows "f = a - a mod 4096"
proof -
  have j: "unat j < 512" using assms(2) by (simp add: word_less_nat_alt)
  have "unat (a - a mod 8) = unat a - unat a mod 8" "unat (a - a mod 4096) = unat a - unat a mod 4096"
    by (simp_all add: unat_sub word_le_nat_alt unat_mod_distrib)
  moreover have "unat (entry_ref f j) = unat f + 8 * unat j" by (rule entry_ref_unat [OF assms(1,2)])
  moreover obtain k where "unat f = 4096 * k" using assms(1) by (metis is_page_aligned_unat mod_0_imp_dvd dvdE)
  ultimately have k: "unat f = 4096 * k" "unat a - unat a mod 8 = 4096 * k + 8 * unat j"
      "unat (a - a mod 4096) = 4096 * (unat a div 4096)"
    using assms(3) by (simp_all add: minus_mod_eq_mult_div)
  have "unat a mod 8 < 8" "unat a mod 8 \<le> unat a" by simp_all
  then have "unat a = 4096 * k + (8 * unat j + unat a mod 8)" "8 * unat j + unat a mod 8 < 4096"
    using k(2) j by linarith+
  then have "unat a div 4096 = k" by (metis add.commute div_less div_mult_self4 add_0 zero_neq_numeral)
  then have "unat f = unat (a - a mod 4096)" using k by simp
  then show ?thesis by (simp add: word_unat_eq_iff)
qed


lemma user_store_off_tables:
  assumes inv: "pt_inv A invar held frames (self, m)" and frames: "owned self \<subseteq> {f. is_page_aligned f}"
    and off: "\<And>i. i < length bs \<Longrightarrow> f i - f i mod 4096 \<notin> owned self"
    and s: "s \<in> \<Union>(cells ` owned self)"
  shows "store_at f mem bs s = mem s"
proof (rule store_at_cell)
  fix i assume i: "i < length bs"
  obtain g j where "g \<in> owned self" "j < 512" "s = entry_ref g j" using s by (auto simp: cells_def)
  then show "s \<noteq> f i - f i mod 8" using cell_page [of g j "f i"] off [OF i] frames by auto
qed

lemma native_owned_aligned:
  assumes "pt_inv A fa_inv allocated fa_frames (self, m)"
  shows "owned self \<subseteq> {f. is_page_aligned f}"
  using assms allocated_frames [of "frame_alloc m"] by (auto simp: pt_inv_def fa_frames_def)

lemma boot_user_range:
  assumes "map_single sv39 alloc_frame 0x1000 0x80200000 PS_4K (Readable OR User) boot_table = (Ok (), self, m)"
  shows "user_range (query_virtual sv39 self (phys m)) 0x1234 2"
    "i < 2 \<Longrightarrow> phys_of (query_virtual sv39 self (phys m)) (0x1234 + of_nat i) = 0x80200234 + of_nat i"
    "owned self = {0x80000000, 0x80001000, 0x80002000}"
proof -
  note q = boot_map_unmap_query [OF assms]
  have p: "paged (query_virtual sv39 self (phys m))" by (rule sv39_paging.native_paged [OF q(1)])
  have step: "query_virtual sv39 self (phys m) (0x1234 + of_nat i) = Ok (0x80200234 + of_nat i, Kernel OR Readable OR User, PS_4K)"
    if "i < 2" for i
    using p q(2) that unfolding paged_def by (auto dest!: spec [of _ "0x1234"] spec [of _ i])
  then show "user_range (query_virtual sv39 self (phys m)) 0x1234 2"
    by (auto simp: user_range_def phys_of_def contains_flags_def gm_defs)
  show "i < 2 \<Longrightarrow> phys_of (query_virtual sv39 self (phys m)) (0x1234 + of_nat i) = 0x80200234 + of_nat i"
    using step by (simp add: phys_of_def)
  have "owned_list (fst (snd (map_single sv39 alloc_frame 0x1000 0x80200000 PS_4K (Readable OR User) boot_table)))
      = [0x80000000, 0x80001000, 0x80002000]"
    by (simp add: boot_table_eq run_simps owned_list_def)
  then show "owned self = {0x80000000, 0x80001000, 0x80002000}" using assms by (simp add: owned_def)
qed

lemma query_unaligned:
  assumes "A = sv39 \<or> A = la64" and "query_virtual A self mem va = Ok (pa, fl, sz)" and "\<not> is_page_aligned va"
  shows "\<not> is_page_aligned pa"
proof -
  have "page_table_entry A (arch_canon A) (arch_leafable A)"
    by (rule paging.axioms(1) [OF native_paging [OF assms(1)]])
  then have base: "is_page_aligned (pte_paddr A e)" for e by (rule page_table_entry.paddr_aligned)
  obtain n where n: "n < 12" "bit va n"
    using aligned_bits [of va] assms(3) by (meson not_le)
  obtain e where e: "pa = pte_paddr A e OR (va AND (as_usize sz - 1))" and sz: "sz = PS_4K \<or> sz = PS_2M \<or> sz = PS_1G"
    using assms(2)
    by (auto simp: query_virtual_def get_entry_def get_entry_internal_def outcome_simps Let_def checked_simps
        split: if_splits)
  have "as_usize sz - 1 \<in> {mask 12, mask 21, mask 30}" using sz by (auto simp: mask_eq_exp_minus_1)
  then have "bit pa n" using n e by (auto simp: bit_simps)
  then show ?thesis using aligned_bit [of pa n] n(1) by auto
qed

lemma cross_loop_pages:
  "cross_loop q va e mt c ps so = Ok (ps', a, b) \<Longrightarrow> \<exists>rest. ps' = ps @ rest"
proof (induction q va e mt c ps so rule: cross_loop.induct)
  case (1 q va e mt c ps so)
  then show ?case
    by (subst (asm) (2) cross_loop.simps)
      (fastforce simp: outcome_simps Let_def split: if_splits prod.splits)
qed


lemma sbind_Ok: "fst (sbind x f) = Ok b \<Longrightarrow> \<exists>a. fst x = Ok a"
  by (cases x; cases "fst x") auto

lemma cross_loop_first:
  assumes "cross_loop q va e mt c [] None = Ok (ps, a, b)"
  obtains phy fl sz rest where "q c = Ok (phy, fl, sz)" "ps = (phy, sz) # rest"
proof -
  obtain phy fl sz where q: "q c = Ok (phy, fl, sz)"
    using assms by (subst (asm) cross_loop.simps, cases "q c") (auto simp: outcome_simps split: outcome.splits)
  have "\<exists>rest. ps = [(phy, sz)] @ rest"
    using assms q
    by (subst (asm) cross_loop.simps)
      (auto simp: outcome_simps Let_def split: if_splits dest: cross_loop_pages)
  then show thesis using that q by auto
qed

section \<open>Properties\<close>






text \<open>A cross mapping of an address that is not page-aligned never succeeds: the frame the
  source answers carries the in-page offset, the mapping of the first window page rejects it as not
  aligned, and the unwrap panics.\<close>

theorem map_cross_unaligned:
  assumes "B = sv39 \<or> B = la64" and "\<not> is_page_aligned vaddr"
  shows "fst (map_cross_internal A alloc (query_virtual B source mem) vaddr len st) \<noteq> Ok x
    \<and> fst (map_cross_mut_internal A alloc (query_virtual B source mem) vaddr len st) \<noteq> Ok x"
proof -
  have "fst (map_cross mt perm pick A alloc (query_virtual B source mem) vaddr len st) \<noteq> Ok x" for mt perm pick
  proof (cases st)
    case (Pair self m)
    have "fst (cross_map_loop A alloc perm w 0 pages st') \<noteq> Ok u"
      if loop: "cross_loop (query_virtual B source mem) vaddr e mt vaddr [] None = Ok (pages, a, b)" for w e pages a b st' u
    proof -
      obtain phy fl sz rest where "query_virtual B source mem vaddr = Ok (phy, fl, sz)" "pages = (phy, sz) # rest"
        using cross_loop_first [OF loop] by blast
      then show ?thesis
        using query_unaligned [OF assms(1) _ assms(2)] by (auto simp: map_single_def split: option.splits)
    qed
    then show ?thesis
      using Pair by (auto simp: map_cross_def split: option.splits outcome.splits prod.splits dest!: sbind_Ok)
  qed
  then show ?thesis by (simp add: map_cross_internal_def map_cross_mut_internal_def)
qed

theorem map_cross_unaligned_witness:
  "fst (map_cross_internal sv39 alloc_frame (query_virtual sv39 (fst boot_table) (phys (snd boot_table)))
     0x1001 8 boot_table) \<noteq> Ok (0x1001, 8)"
  using map_cross_unaligned [of sv39 "0x1001" sv39 alloc_frame "fst boot_table" "phys (snd boot_table)" 8 boot_table]
  by (simp add: is_page_aligned_def is_aligned_def PAGE_SIZE_def)

end
