(* ===== verification/Page_Progress.thy ===== *)
theory Page_Progress
  imports Page_Access
begin

text \<open>
  When mapping a page succeeds. A page is open when every entry on its path is empty or leads to a
  table and the last one is empty; mapping an open page can fail only for lack of frames, mapping
  keeps the other pages open, and unmapping a page opens it again. The theory also collects what
  mapping and unmapping keep of the frames that other parties hold.
\<close>

section \<open>Open paths\<close>

fun open_path :: "pt_arch \<Rightarrow> memory \<Rightarrow> usize \<Rightarrow> usize list \<Rightarrow> bool" where
  "open_path A mem t [] \<longleftrightarrow> False"
| "open_path A mem t [i] \<longleftrightarrow> mem (entry_ref t i) = 0"
| "open_path A mem t (i # j # is) \<longleftrightarrow> mem (entry_ref t i) = 0 \<or>
     (case next_table A (mem (entry_ref t i)) of None \<Rightarrow> False | Some t' \<Rightarrow> open_path A mem t' (j # is))"

lemma open_path_cong:
  "(\<And>s. s \<in> reads A mem t is \<Longrightarrow> mem' s = mem s) \<Longrightarrow> open_path A mem' t is = open_path A mem t is"
proof (induction A mem t "is" rule: open_path.induct)
  case (3 A mem t i j "is")
  show ?case
  proof (cases "next_table A (mem (entry_ref t i))")
    case (Some t')
    have "open_path A mem' t' (j # is) = open_path A mem t' (j # is)"
      using 3 Some by simp
    moreover have "mem' (entry_ref t i) = mem (entry_ref t i)" using 3(2) by simp
    ultimately show ?thesis using Some by simp
  qed (use 3 in simp)
qed simp_all

lemma open_path_update_other:
  assumes tree: "pt_tree A mem r own"
    and p: "valid_path p" "length p < LEVELS A" "resolve A mem r p = Some t" "i < 512"
    and upd: "\<And>s. s \<noteq> entry_ref t i \<Longrightarrow> mem' s = mem s"
    and q: "valid_path q" "length q \<le> LEVELS A" "\<not> prefix (p @ [i]) q"
  shows "open_path A mem' r q = open_path A mem r q"
  by (rule open_path_cong) (metis reads_update [OF tree p q] upd)

lemma open_path_zero:
  "(\<And>i. i < 512 \<Longrightarrow> mem (entry_ref f i) = 0) \<Longrightarrow> valid_path q \<Longrightarrow> q \<noteq> [] \<Longrightarrow> open_path A mem f q"
proof -
  assume z: "\<And>i. i < 512 \<Longrightarrow> mem (entry_ref f i) = 0" and q: "valid_path q" "q \<noteq> []"
  obtain i r where ir: "q = i # r" using q(2) by (cases q) auto
  then show ?thesis using z [of i] q(1) by (cases r) simp_all
qed

text \<open>The page of an address can be mapped.\<close>

definition page_open :: "pt_arch \<Rightarrow> page_table \<Rightarrow> memory \<Rightarrow> usize \<Rightarrow> bool" where
  "page_open A self mem va = open_path A mem (pt_root self) (indices A va)"

text \<open>What growing the tree keeps: new tables are frames nobody held, and open pages stay open.\<close>

definition extends ::
  "pt_arch \<Rightarrow> ('f \<Rightarrow> usize set) \<Rightarrow> 'f pt_state \<Rightarrow> 'f pt_state \<Rightarrow> bool" where
  "extends A held = (\<lambda>(self, m) (self', m').
     pt_root self' = pt_root self \<and>
     owned self' \<inter> held (frame_alloc m) = owned self \<and>
     held (frame_alloc m) \<subseteq> held (frame_alloc m') \<and>
     (\<forall>q. valid_path q \<longrightarrow> length q = LEVELS A \<longrightarrow>
        open_path A (phys m) (pt_root self) q \<longrightarrow> open_path A (phys m') (pt_root self') q))"

lemma extends_refl: "owned (fst st) \<subseteq> held (frame_alloc (snd st)) \<Longrightarrow> extends A held st st"
  by (auto simp: extends_def split: prod.splits)

lemma extends_trans:
  assumes "extends A held st st'" "extends A held st' st''"
  shows "extends A held st st''"
proof -
  obtain s m s' m' s'' m'' where st: "st = (s, m)" "st' = (s', m')" "st'' = (s'', m'')"
    by (metis surj_pair)
  have "owned s'' \<inter> held (frame_alloc m) = owned s"
    using assms unfolding st extends_def prod.case by blast
  then show ?thesis using assms unfolding st extends_def prod.case by (metis subset_trans)
qed

context paging
begin

lemma open_path_through:
  "resolve A mem t p = Some t' \<Longrightarrow> q \<noteq> [] \<Longrightarrow> open_path A mem t (p @ q) = open_path A mem t' q"
proof (induction p arbitrary: t)
  case (Cons i p)
  then obtain u where u: "next_table A (mem (entry_ref t i)) = Some u" "resolve A mem u p = Some t'"
    by (auto simp: bind_eq_Some_conv)
  obtain j r where jr: "p @ q = j # r" using Cons.prems(2) by (cases "p @ q") auto
  have "mem (entry_ref t i) \<noteq> 0" using u(1) by (metis next_table_0 option.distinct(1))
  then show ?case using Cons.IH [OF u(2) Cons.prems(2)] jr u(1) by simp
qed simp

lemma open_path_unmapped:
  "q \<noteq> [] \<Longrightarrow> open_path A mem t q \<Longrightarrow> lookup A mem t q = Err NotMapped"
proof (induction q arbitrary: t)
  case (Cons i q)
  show ?case
  proof (cases q)
    case Nil
    then show ?thesis using Cons.prems by (simp add: lookup_def)
  next
    case q: (Cons j r)
    show ?thesis
    proof (cases "mem (entry_ref t i) = 0")
      case True
      then show ?thesis using q zero_not_huge by (simp add: lookup_def)
    next
      case False
      then obtain u where u: "next_table A (mem (entry_ref t i)) = Some u" "open_path A mem u q"
        using Cons.prems q by (auto split: option.splits)
      then have "walk A mem t (i # q) = walk A mem u q"
        using walk_through [of A mem t "[i]" u q] q by simp
      then show ?thesis using Cons.IH [OF _ u(2)] q by (simp add: lookup_def)
    qed
  qed
qed simp


lemma open_path_new_table:
  assumes tree: "pt_tree A mem r own"
    and p: "valid_path p" "length p + 1 < LEVELS A" "resolve A mem r p = Some t" "i < 512"
    and upd: "\<And>s. s \<noteq> entry_ref t i \<Longrightarrow> mem' s = mem s"
    and new: "get_next_level A (mem' (entry_ref t i)) = Ok f"
    and empty: "\<And>j. j < 512 \<Longrightarrow> mem' (entry_ref f j) = 0"
    and q: "valid_path q" "length q = LEVELS A" "open_path A mem r q"
  shows "open_path A mem' r q"
proof (cases "prefix (p @ [i]) q")
  case True
  then obtain rest where rest: "q = p @ i # rest" by (auto simp: prefix_def)
  then obtain j rs where js: "rest = j # rs" using p(2) q(2) by (cases rest) auto
  have p2: "length p < LEVELS A" using p(2) by simp
  have "open_path A mem' r q = open_path A mem' t (i # rest)"
    using open_path_through [OF resolve_update_self [OF tree p(1) p2 p(3,4) upd], of "i # rest"] rest by simp
  moreover have "open_path A mem' f rest"
    by (rule open_path_zero) (use empty q(1) rest js in auto)
  ultimately show ?thesis using new js by (simp add: next_table_def)
next
  case False
  then show ?thesis using open_path_update_other [OF tree p(1) _ p(3,4) upd q(1)] p(2) q(2,3) by simp
qed

lemma create_step_extends:
  assumes inv: "pt_inv A invar held frames (self, m)"
    and p: "valid_path p" "length p + 1 < LEVELS A"
      "resolve A (phys m) (pt_root self) p = Some t" "i < 512"
    and step: "get_create_next_level A alloc (entry_ref t i) (self, m) = (r, self', m')"
  shows "extends A held (self, m) (self', m')
    \<and> (phys m (entry_ref t i) = 0 \<longrightarrow> r = Err OutOfMemory \<or>
        (\<exists>f. r = Ok f \<and> (\<forall>j<512. phys m' (entry_ref f j) = 0)))
    \<and> (phys m (entry_ref t i) \<noteq> 0 \<longrightarrow> r = get_next_level A (phys m (entry_ref t i)) \<and> self' = self \<and> m' = m)"
proof -
  obtain al where al: "allocation self = Some al" and fa: "invar (frame_alloc m)"
    and ow: "owned self \<subseteq> held (frame_alloc m)" and tree: "pt_tree A (phys m) (pt_root self) (owned self)"
    using inv by (auto simp: pt_inv_def)
  have refl: "extends A held (self, m) (self, m)" using extends_refl [of "(self, m)"] ow by simp
  show ?thesis
  proof (cases "phys m (entry_ref t i) = 0")
    case False
    then have "self' = self" "m' = m" "r = get_next_level A (phys m (entry_ref t i))"
      using step al by (auto simp: get_create_next_level_def ensure_can_modify_def empty_iff)
    then show ?thesis using refl False by simp
  next
    case True
    obtain x fa' where x: "alloc (frame_alloc m) = Some (x, fa')" using alloc_total [OF fa] by auto
    show ?thesis
    proof (cases x)
      case None
      then have "self' = self" "m' = m" "r = Err OutOfMemory"
        using step al True x alloc_exhausted [OF fa, of fa']
        by (auto simp: get_create_next_level_def ensure_can_modify_def empty_iff)
      then show ?thesis using refl True by simp
    next
      case (Some f)
      note xf = x [unfolded Some]
      have st: "r = raw_table_of f" "m' = m\<lparr>frame_alloc := fa', phys := (phys m)(entry_ref t i := new_table A f)\<rparr>"
          "self' = self\<lparr>allocation := Some (al\<lparr>pt_frames := pt_frames al @ [f]\<rparr>)\<rparr>"
        using step al True x Some
        by (auto simp: get_create_next_level_def ensure_can_modify_def empty_iff)
      note added = table_added [OF inv al p True xf st(2,3)]
      have f: "f \<in> frames (frame_alloc m)" "f \<notin> held (frame_alloc m)" "held fa' = insert f (held (frame_alloc m))"
        using alloc_fresh [OF fa xf] by auto
      have fok: "is_page_aligned f" "f \<noteq> 0" "unat f < 2 ^ PA_MAX_BITS A" using inv f(1) by (auto simp: pt_inv_def)
      have p2: "length p < LEVELS A" using p(2) by simp
      have t: "t \<in> owned self" "is_page_aligned t"
        using pt_treeD(3) [OF tree p(1) p2 p(3)] resolve_aligned [OF pt_treeD(1) [OF tree] p(3)] by auto
      have zero: "phys m' (entry_ref f j) = 0" if "j < 512" for j
        using entry_ref_inj [OF fok(1) t(2) that p(4)] t(1) ow f(1,2) inv that st(2)
        by (auto simp: pt_inv_def clean_def)
      have op: "open_path A (phys m') (pt_root self) q"
        if "valid_path q" "length q = LEVELS A" "open_path A (phys m) (pt_root self) q" for q
        by (rule open_path_new_table [where mem' = "phys m'" and f = f, OF tree p])
            (use st(2) next_table_new [OF fok] zero that in auto)
      have "owned self' = insert f (owned self)" using st(3) al by (simp add: owned_def owned_list_def)
      then have "extends A held (self, m) (self', m')"
        using st(2,3) f ow op by (auto simp: extends_def)
      then show ?thesis using zero True added st(1) by auto
    qed
  qed
qed

lemma create_walk_extends:
  "pt_inv A invar held frames (self, m) \<Longrightarrow> valid_path p \<Longrightarrow> valid_path is \<Longrightarrow> is \<noteq> [] \<Longrightarrow>
   length p + length is \<le> LEVELS A \<Longrightarrow> resolve A (phys m) (pt_root self) p = Some t \<Longrightarrow>
   create_walk A alloc t is (self, m) = (r, self', m') \<Longrightarrow>
   extends A held (self, m) (self', m')
   \<and> (open_path A (phys m) t is \<longrightarrow> r = Err OutOfMemory \<or> (\<exists>s. r = Ok s \<and> phys m' s = 0))"
proof (induction "is" arbitrary: self m p t)
  case (Cons i "is")
  show ?case
  proof (cases "is")
    case Nil
    then show ?thesis using Cons.prems extends_refl [of "(self, m)"]
      by (auto simp: pt_inv_def split: prod.splits)
  next
    case js: (Cons j js)
    obtain r1 self1 m1 where st: "get_create_next_level A alloc (entry_ref t i) (self, m) = (r1, self1, m1)"
      by (metis surj_pair)
    have i: "i < 512" and len: "length p + 1 < LEVELS A" using Cons.prems js by auto
    note s1 = create_step [OF Cons.prems(1,2) len Cons.prems(6) i st]
    note e1 = create_step_extends [OF Cons.prems(1,2) len Cons.prems(6) i st]
    show ?thesis
    proof (cases r1)
      case (Ok t1)
      have run: "create_walk A alloc t1 is (self1, m1) = (r, self', m')"
        using Cons.prems(7) st js Ok by simp
      have "resolve A (phys m1) (pt_root self1) (p @ [i]) = Some t1" using s1 Ok by simp
      then have IH: "extends A held (self1, m1) (self', m')
          \<and> (open_path A (phys m1) t1 is \<longrightarrow> r = Err OutOfMemory \<or> (\<exists>s. r = Ok s \<and> phys m' s = 0))"
        using Cons.IH [of self1 m1 "p @ [i]" t1, OF _ _ _ _ _ _ run] Cons.prems s1 js by simp
      moreover have "open_path A (phys m1) t1 is" if "open_path A (phys m) t (i # is)"
      proof (cases "phys m (entry_ref t i) = 0")
        case True
        then show ?thesis using e1 Ok Cons.prems(3) js by (intro open_path_zero) auto
      next
        case False
        then have "get_next_level A (phys m (entry_ref t i)) = Ok t1" "m1 = m" using e1 Ok by auto
        then show ?thesis using that js False by (simp add: next_table_def)
      qed
      ultimately show ?thesis using e1 extends_trans by blast
    next
      case (Err e)
      then have "r = Err e" "self' = self1" "m' = m1" using Cons.prems(7) st js by auto
      then show ?thesis using e1 Err js by (auto simp: next_table_def split: option.splits outcome.splits)
    qed (use s1 in simp)
  qed
qed simp


lemma open_path_leaf_write:
  assumes inv: "pt_inv A invar held frames (self, m)"
    and t: "resolve A (phys m) (pt_root self) (butlast (indices A va)) = Some t"
    and m': "m' = m\<lparr>phys := (phys m)(entry_ref t (last (indices A va)) := e)\<rparr>"
  shows "page_open A self (phys m') va' =
      (if region A 1 va' = region A 1 va then e = 0 else page_open A self (phys m) va')"
    and "\<forall>s. s \<notin> \<Union>(cells ` owned self) \<longrightarrow> phys m' s = phys m s"
proof -
  note tree = pt_invD(1) [OF inv]
  let ?p = "butlast (indices A va)" and ?i = "last (indices A va)"
  have len: "length (indices A va') = LEVELS A" for va' using length_indices [OF levels] .
  have ne: "indices A va \<noteq> []" using len [of va] levels by auto
  then have pi: "?p @ [?i] = indices A va" by simp
  have v: "valid_path ?p" "?i < 512" using indices_valid [of A va] pi by (metis valid_path_simps)+
  have lp: "length ?p < LEVELS A" using len [of va] levels by auto
  have upd: "s \<noteq> entry_ref t ?i \<Longrightarrow> phys m' s = phys m s" for s using m' by simp
  have pre: "prefix (?p @ [?i]) (indices A va') \<longleftrightarrow> region A 1 va' = region A 1 va"
    using target_path_region [OF levels, of va PS_4K va'] len [of va] levels unfolding pi
    by (auto simp: target_path_def)
  show "page_open A self (phys m') va' =
      (if region A 1 va' = region A 1 va then e = 0 else page_open A self (phys m) va')"
  proof (cases "region A 1 va' = region A 1 va")
    case True
    then have "indices A va' = ?p @ [?i]"
      using pre len [of va] len [of va'] unfolding pi by (auto simp: prefix_def)
    then have "page_open A self (phys m') va' = open_path A (phys m') t [?i]"
      using open_path_through [OF resolve_update_self [OF tree v(1) lp t v(2) upd], of "[?i]"]
      unfolding page_open_def by simp
    then show ?thesis using True m' by simp
  next
    case False
    then show ?thesis
      using open_path_update_other [OF tree v(1) lp t v(2) upd, of "indices A va'"] pre len
      by (simp add: page_open_def)
  qed
  have "t \<in> owned self" using pt_treeD(3) [OF tree v(1) lp t] .
  then show "\<forall>s. s \<notin> \<Union>(cells ` owned self) \<longrightarrow> phys m' s = phys m s"
    using m' v(2) by (auto simp: cells_def)
qed

lemma map_single_progress:
  assumes inv: "pt_inv A invar held frames (self, m)"
    and run: "map_single A alloc va target PS_4K flags (self, m) = (r, self', m')"
    and aligned: "is_page_aligned va" "is_page_aligned target"
    and flags: "flags \<noteq> 0"
  shows "pt_root self' = pt_root self \<and> owned self' \<inter> held (frame_alloc m) = owned self
    \<and> held (frame_alloc m') = held (frame_alloc m) \<union> owned self'
    \<and> frames (frame_alloc m') = frames (frame_alloc m)
    \<and> (\<forall>s. s \<notin> \<Union>(cells ` owned self') \<longrightarrow> phys m' s = phys m s)
    \<and> (page_open A self (phys m) va \<longrightarrow> r = Ok () \<or> r = Err OutOfMemory)
    \<and> (page_open A self (phys m) va' \<longrightarrow> r \<noteq> Ok () \<or> region A 1 va' \<noteq> region A 1 va \<longrightarrow>
        page_open A self' (phys m') va')"
proof -
  obtain r1 self1 m1 where c: "get_create_entry A alloc va PS_4K (self, m) = (r1, self1, m1)"
    by (metis surj_pair)
  note s1 = get_create_entry_spec [OF inv c]
  have tp: "target_path A va PS_4K = indices A va" using length_indices [OF levels, of va] levels
    by (simp add: target_path_def)
  have w: "create_walk A alloc (pt_root self) (indices A va) (self, m) = (r1, self1, m1)"
    using create_entry_walk [of self va PS_4K m] raw_root [OF pt_invD(1) [OF inv]] c pt_invD(2) [OF inv] aligned tp
    by auto
  have "indices A va \<noteq> []" using length_indices [OF levels, of va] levels by auto
  from create_walk_extends [OF inv _ _ this _ _ w, of "[]"]
  have e1: "extends A held (self, m) (self1, m1)"
    and o1: "page_open A self (phys m) va \<Longrightarrow> r1 = Err OutOfMemory \<or> (\<exists>s. r1 = Ok s \<and> phys m1 s = 0)"
    using length_indices [OF levels, of va] by (simp_all add: page_open_def)
  have inv1: "pt_inv A invar held frames (self1, m1)" and g: "grows A held frames (self, m) (self1, m1)"
    using s1 by auto
  have keep: "page_open A self (phys m) x \<Longrightarrow> page_open A self1 (phys m1) x" for x
    using e1 length_indices [OF levels, of x] by (auto simp: extends_def page_open_def)
  have base: "pt_root self1 = pt_root self" "owned self1 \<inter> held (frame_alloc m) = owned self"
      "held (frame_alloc m1) = held (frame_alloc m) \<union> owned self1" "frames (frame_alloc m1) = frames (frame_alloc m)"
      "\<forall>s. s \<notin> \<Union>(cells ` owned self1) \<longrightarrow> phys m1 s = phys m s"
    using g e1 by (auto simp: grows_def extends_def)
  show ?thesis
  proof (cases "\<exists>s. r1 = Ok s \<and> phys m1 s = 0")
    case True
    then obtain s where s: "r1 = Ok s" "phys m1 s = 0" by auto
    then obtain t where t: "resolve A (phys m1) (pt_root self1) (butlast (indices A va)) = Some t"
      "s = entry_ref t (last (indices A va))" using s1 tp by auto
    have td: "target - target mod PAGE_SIZE = target"
      using aligned by (simp add: is_page_aligned_def is_aligned_def)
    have st: "r = Ok ()" "self' = self1" "m' = m1\<lparr>phys := (phys m1)(s := new_page A target flags False)\<rparr>"
      using run aligned c s td by (auto simp: map_single_def empty_iff page_down_eq write_entry_def)
    note wr = open_path_leaf_write(1) [OF inv1 t(1) st(3) [unfolded t(2)], where va' = va']
      open_path_leaf_write(2) [OF inv1 t(1) st(3) [unfolded t(2)]]
    then show ?thesis using base st keep by auto
  next
    case False
    have "r \<noteq> Ok () \<and> (r = Err OutOfMemory \<longleftrightarrow> r1 = Err OutOfMemory) \<and> self' = self1 \<and> m' = m1"
      using run aligned c False s1 by (cases r1) (auto simp: map_single_def empty_iff split: if_splits)
    then show ?thesis using base keep o1 False by auto
  qed
qed

lemma unmap_single_progress:
  assumes inv: "pt_inv A invar held frames (self, m)"
    and found: "lookup A (phys m) (pt_root self) (indices A va) = Ok (e, 1)"
    and run: "unmap_single A va (self, m) = (r, self', m')"
  shows "self' = self \<and> frame_alloc m' = frame_alloc m
    \<and> (\<forall>s. s \<notin> \<Union>(cells ` owned self) \<longrightarrow> phys m' s = phys m s)
    \<and> page_open A self (phys m') va' =
      (region A 1 va' = region A 1 va \<or> page_open A self (phys m) va')"
proof -
  obtain s where s: "walk A (phys m) (pt_root self) (indices A va) = Ok (s, 1)" "phys m s = e"
    using found by (auto simp: lookup_found)
  have tp: "target_path A va (level_size 1) = indices A va" using length_indices [OF levels, of va] levels
    by (simp add: target_path_def)
  obtain t where t: "resolve A (phys m) (pt_root self) (butlast (indices A va)) = Some t"
      "s = entry_ref t (last (indices A va))"
    using walk_target(1) [OF s(1)] unfolding tp by auto
  have st: "self' = self" "m' = m\<lparr>phys := (phys m)(s := 0)\<rparr>"
    using run get_entry_mut_found [OF inv s(1)] s(2)
    by (auto simp: unmap_single_def write_entry_def clear_0 split: if_splits)
  show ?thesis
    using open_path_leaf_write(1) [OF inv t(1) st(2) [unfolded t(2)], where va' = va']
      open_path_leaf_write(2) [OF inv t(1) st(2) [unfolded t(2)]] st by auto
qed

end
section \<open>The entries that mapping and unmapping leave alone\<close>

context paging
begin

lemma lookup_leaf_write:
  assumes inv: "pt_inv A invar held frames (self, m)"
    and t: "resolve A (phys m) (pt_root self) (butlast (indices A va)) = Some t"
    and m': "m' = m\<lparr>phys := (phys m)(entry_ref t (last (indices A va)) := e)\<rparr>"
  shows "lookup A (phys m') (pt_root self) (indices A va') =
      (if region A 1 va' = region A 1 va then (if e = 0 then Err NotMapped else Ok (e, 1))
       else lookup A (phys m) (pt_root self) (indices A va'))"
proof -
  let ?p = "butlast (indices A va)" and ?i = "last (indices A va)"
  have len: "length (indices A va') = LEVELS A" for va' using length_indices [OF levels] .
  have "indices A va \<noteq> []" using len [of va] levels by auto
  then have pi: "?p @ [?i] = indices A va" by simp
  have v: "valid_path ?p" "?i < 512" using indices_valid [of A va] pi by (metis valid_path_simps)+
  have lp: "length ?p < LEVELS A" "length ?p + 1 = LEVELS A" "LEVELS A - length ?p = 1"
    using len [of va] levels by auto
  have pre: "prefix (?p @ [?i]) (indices A va') \<longleftrightarrow> region A 1 va' = region A 1 va"
    using target_path_region [OF levels, of va PS_4K va'] len [of va] levels unfolding pi
    by (auto simp: target_path_def)
  show ?thesis
    using leaf_write [OF inv v(1) lp(1) t v(2) _ m'] lp(2,3) len pre by auto
qed

lemma map_single_lookup:
  assumes inv: "pt_inv A invar held frames (self, m)"
    and run: "map_single A alloc va target PS_4K flags (self, m) = (r, self', m')"
    and aligned: "is_page_aligned target" and other: "region A 1 va' \<noteq> region A 1 va \<or> r \<noteq> Ok ()"
  shows "lookup A (phys m') (pt_root self') (indices A va') = lookup A (phys m) (pt_root self) (indices A va')"
proof -
  obtain r1 self1 m1 where c: "get_create_entry A alloc va PS_4K (self, m) = (r1, self1, m1)"
    by (metis surj_pair)
  note s1 = get_create_entry_spec [OF inv c]
  have inv1: "pt_inv A invar held frames (self1, m1)" using s1 by simp
  have g: "pt_root self1 = pt_root self"
      "lookup A (phys m1) (pt_root self) (indices A va') = lookup A (phys m) (pt_root self) (indices A va')"
    using s1 length_indices [OF levels, of va'] by (simp_all add: grows_def)
  have tp: "target_path A va PS_4K = indices A va" using length_indices [OF levels, of va] levels
    by (simp add: target_path_def)
  show ?thesis
  proof (cases "\<exists>s. r1 = Ok s \<and> phys m1 s = 0")
    case True
    then obtain s where s: "r1 = Ok s" "phys m1 s = 0" by auto
    then obtain t where t: "resolve A (phys m1) (pt_root self1) (butlast (indices A va)) = Some t"
      "s = entry_ref t (last (indices A va))" using s1 tp by auto
    have td: "target - target mod PAGE_SIZE = target"
      using aligned by (simp add: is_page_aligned_def is_aligned_def)
    have st: "r = Ok ()" "self' = self1" "m' = m1\<lparr>phys := (phys m1)(s := new_page A target flags False)\<rparr>"
      using run aligned c s td by (auto simp: map_single_def empty_iff page_down_eq write_entry_def)
    show ?thesis
      using lookup_leaf_write [OF inv1 t(1) st(3) [unfolded t(2)], of va'] other st g by simp
  next
    case False
    have "self' = self1 \<and> m' = m1"
      using run aligned c False s1 by (cases r1) (auto simp: map_single_def empty_iff split: if_splits)
    then show ?thesis using g by simp
  qed
qed

lemma unmap_single_lookup:
  assumes inv: "pt_inv A invar held frames (self, m)"
    and found: "lookup A (phys m) (pt_root self) (indices A va) = Ok (e, 1)"
    and run: "unmap_single A va (self, m) = (r, self', m')"
  shows "lookup A (phys m') (pt_root self) (indices A va') =
      (if region A 1 va' = region A 1 va then Err NotMapped else lookup A (phys m) (pt_root self) (indices A va'))"
proof -
  obtain s where s: "walk A (phys m) (pt_root self) (indices A va) = Ok (s, 1)" "phys m s = e"
    using found by (auto simp: lookup_found)
  have tp: "target_path A va (level_size 1) = indices A va" using length_indices [OF levels, of va] levels
    by (simp add: target_path_def)
  obtain t where t: "resolve A (phys m) (pt_root self) (butlast (indices A va)) = Some t"
      "s = entry_ref t (last (indices A va))"
    using walk_target(1) [OF s(1)] unfolding tp by auto
  have st: "self' = self" "m' = m\<lparr>phys := (phys m)(s := 0)\<rparr>"
    using run get_entry_mut_found [OF inv s(1)] s(2)
    by (auto simp: unmap_single_def write_entry_def clear_0 split: if_splits)
  show ?thesis using lookup_leaf_write [OF inv t(1) st(2) [unfolded t(2)], of va'] by simp
qed

end

section \<open>Properties\<close>

lemma boot_open: "A = sv39 \<or> A = la64 \<Longrightarrow> page_open A (fst boot_table) (phys (snd boot_table)) va"
  by (auto simp: page_open_def boot_table_eq indices_def sv39_def la64_def)

text \<open>C7: mapping an open page succeeds unless every frame is handed out, keeps every other page
  open, and unmapping the page opens it again, so that it can be mapped once more.\<close>

theorem map_open_page:
  assumes "A = sv39 \<or> A = la64" and "native_inv A (self, m)" and "page_open A self (phys m) va"
    and "is_page_aligned va" and "is_page_aligned target" and "unat target < 2 ^ PA_MAX_BITS A" and "flags \<noteq> 0"
    and "map_single A alloc_frame va target PS_4K flags (self, m) = (r, self', m')"
  shows "(r = Ok () \<or> r = Err OutOfMemory \<and> allocated (frame_alloc m') = fa_frames (frame_alloc m'))
    \<and> (\<forall>va'. page_open A self (phys m) va' \<longrightarrow> region A 1 va' \<noteq> region A 1 va \<longrightarrow>
         page_open A self' (phys m') va')
    \<and> (r = Ok () \<longrightarrow> page_open A self' (phys (snd (snd (unmap_single A va (self', m'))))) va)"
proof -
  note p = native_paging [OF assms(1)]
  note prog = paging.map_single_progress [OF p assms(2,8,4,5,7)]
  note spec = paging.map_single_spec [OF p assms(2,8,6,7) _ refl, of va]
  have "page_open A self' (phys (snd (snd (unmap_single A va (self', m'))))) va" if "r = Ok ()"
  proof -
    obtain r2 self2 m2 where run: "unmap_single A va (self', m') = (r2, self2, m2)" by (metis surj_pair)
    have "native_inv A (self', m')"
      "lookup A (phys m') (pt_root self') (indices A va) = Ok (new_page A target flags False, 1)"
      using spec that by auto
    from paging.unmap_single_progress [OF p this run] show ?thesis using run by auto
  qed
  then show ?thesis using prog spec assms(3) by auto
qed

theorem map_open_page_witness:
  "\<exists>self m. map_single sv39 alloc_frame 0x1000 0x80200000 PS_4K (Readable OR User) boot_table = (Ok (), self, m)
    \<and> page_open sv39 self (phys (snd (snd (unmap_single sv39 0x1000 (self, m))))) 0x1000"
proof -
  obtain self m where run:
    "map_single sv39 alloc_frame 0x1000 0x80200000 PS_4K (Readable OR User) boot_table = (Ok (), self, m)"
    using boot_map by (metis prod.collapse)
  have "page_open sv39 self (phys (snd (snd (unmap_single sv39 0x1000 (self, m))))) 0x1000"
    using map_open_page [of sv39 "fst boot_table" "snd boot_table" "0x1000" "0x80200000" "Readable OR User" "Ok ()" self m]
      boot_inv(1) boot_open run
    by (simp add: is_page_aligned_def is_aligned_def PAGE_SIZE_def sv39_def gm_defs)
  with run show ?thesis by blast
qed

end
