(* ===== verification/Memory_Space.thy ===== *)
theory Memory_Space
  imports Page_Progress
begin

text \<open>
  \<^verbatim>\<open>src/libraries/memory-space\<close>: the areas of a user address space, over a page table and a frame
  allocator behind trait objects. The theory holds the operations in the order of the source, the
  contract they need from the page table and the allocator as a locale with its interpretation on
  the page tables of both architectures, and the properties of mapping, unmapping, growing the
  break and copying a memory space.
\<close>


section \<open>Data\<close>

text \<open>The operations of the traits \<^verbatim>\<open>IMMU\<close> and \<^verbatim>\<open>IFrameAllocator\<close> a memory space calls. A memory space
  holds handles to both; the state behind the handles is an argument of every operation.\<close>

record 's immu =
  im_map_single :: "usize \<Rightarrow> usize \<Rightarrow> PageSize \<Rightarrow> usize \<Rightarrow> 's \<Rightarrow> (unit, PagingError) outcome \<times> 's"
  im_unmap_single :: "usize \<Rightarrow> 's \<Rightarrow> (usize \<times> PageSize, PagingError) outcome \<times> 's"
  im_read_bytes :: "usize \<Rightarrow> usize \<Rightarrow> 's \<Rightarrow> (unit, MMUError) outcome \<times> u8 list"
  im_write_bytes :: "usize \<Rightarrow> u8 list \<Rightarrow> 's \<Rightarrow> (unit, MMUError) outcome \<times> 's"

record 's iframe_allocator =
  ia_alloc_frame :: "'s \<Rightarrow> (usize option \<times> 's) option"
  ia_dealloc :: "'s \<Rightarrow> usize \<Rightarrow> 's option"

datatype MapType = Identity | Framed | Direct | Linear

datatype AreaType = UserElf | SignalTrampoline | UserStackGuardBase | UserStack | UserStackGuardTop
  | UserBrk | VMA | AreaKernel

text \<open>The frames of an area: the \<^verbatim>\<open>BTreeMap\<close> is the list of its entries in the order of the keys.\<close>

record mapping_area_allocation =
  maa_frames :: "(usize \<times> usize) list"

record mapping_area =
  ma_range :: page_range
  ma_area_type :: AreaType
  ma_map_type :: MapType
  ma_permissions :: usize
  ma_allocation :: "mapping_area_allocation option"

record memory_space_attribute =
  brk_area_idx_field :: usize
  brk_start_field :: usize
  stack_guard_base :: addr_range
  stack_range :: addr_range
  stack_guard_top :: addr_range
  elf_area :: addr_range
  signal_trampoline_field :: usize

definition attribute_default :: memory_space_attribute where
  "attribute_default = \<lparr>brk_area_idx_field = - 1, brk_start_field = null_addr,
     stack_guard_base = ar_from_start_end null_addr null_addr,
     stack_range = ar_from_start_end null_addr null_addr,
     stack_guard_top = ar_from_start_end null_addr null_addr,
     elf_area = ar_from_start_end null_addr null_addr,
     signal_trampoline_field = 0\<rparr>"

record memory_space =
  mapping_areas :: "mapping_area list"
  attr_cell :: "memory_space_attribute option"

type_synonym 's ms_state = "memory_space \<times> 's"

section \<open>Areas and their frames\<close>

definition mapping_area_new ::
  "page_range \<Rightarrow> AreaType \<Rightarrow> MapType \<Rightarrow> usize \<Rightarrow> mapping_area_allocation option \<Rightarrow> mapping_area" where
  "mapping_area_new r area_type map_type permissions alc =
     \<lparr>ma_range = r, ma_area_type = area_type, ma_map_type = map_type, ma_permissions = permissions,
      ma_allocation = alc\<rparr>"

definition mapping_area_clone_from :: "mapping_area \<Rightarrow> mapping_area" where
  "mapping_area_clone_from area =
     \<lparr>ma_range = ma_range area, ma_area_type = ma_area_type area, ma_map_type = ma_map_type area,
      ma_permissions = ma_permissions area, ma_allocation = None\<rparr>"

definition area_contains :: "mapping_area \<Rightarrow> usize \<Rightarrow> bool" where
  "area_contains self vpn = pr_contains (ma_range self) vpn"

text \<open>Inserting a frame. The frame a key had before is dropped, and dropping a frame descriptor
  panics.\<close>

fun frames_insert :: "usize \<Rightarrow> usize \<Rightarrow> (usize \<times> usize) list \<Rightarrow> (usize \<times> usize) list option" where
  "frames_insert k v [] = Some [(k, v)]"
| "frames_insert k v ((k', v') # xs) =
     (if k < k' then Some ((k, v) # (k', v') # xs)
      else if k = k' then None
      else do { ys \<leftarrow> frames_insert k v xs; Some ((k', v') # ys) })"

text \<open>Dropping an allocation returns its frames in the order of the pages.\<close>

fun area_drop_loop :: "'s iframe_allocator \<Rightarrow> (usize \<times> usize) list \<Rightarrow> 's \<Rightarrow> 's option" where
  "area_drop_loop F [] s = Some s"
| "area_drop_loop F ((_, frame) # frames) s = do { s \<leftarrow> ia_dealloc F s frame; area_drop_loop F frames s }"

definition area_drop :: "'s iframe_allocator \<Rightarrow> mapping_area \<Rightarrow> 's \<Rightarrow> 's option" where
  "area_drop F area s =
     (case ma_allocation area of None \<Rightarrow> Some s | Some al \<Rightarrow> area_drop_loop F (maa_frames al) s)"

text \<open>\<^verbatim>\<open>unwrap\<close> of the result of an operation on the state.\<close>

fun sunwrap :: "('a, 'e) outcome \<times> 's \<Rightarrow> ('a, 'f) outcome \<times> 's" where
  "sunwrap (Ok a, s) = (Ok a, s)"
| "sunwrap (Err e, s) = (Panic, s)"
| "sunwrap (Panic, s) = (Panic, s)"

section \<open>Mapping and unmapping areas\<close>

definition ms_new :: memory_space where
  "ms_new = \<lparr>mapping_areas = [], attr_cell = None\<rparr>"

definition ms_init :: "memory_space_attribute \<Rightarrow> memory_space \<Rightarrow> memory_space option" where
  "ms_init a self = (case attr_cell self of None \<Rightarrow> Some (self\<lparr>attr_cell := Some a\<rparr>) | Some _ \<Rightarrow> None)"

definition create_empty_area_allocation :: mapping_area_allocation where
  "create_empty_area_allocation = \<lparr>maa_frames = []\<rparr>"

fun alloc_map_loop ::
  "'s immu \<Rightarrow> 's iframe_allocator \<Rightarrow> usize \<Rightarrow> usize list \<Rightarrow> mapping_area_allocation \<Rightarrow> 's \<Rightarrow>
   (mapping_area_allocation, string) outcome \<times> 's" where
  "alloc_map_loop M F permissions [] al s = (Ok al, s)"
| "alloc_map_loop M F permissions (vpn # vpns) al s =
     (case ia_alloc_frame F s of
        None \<Rightarrow> (Panic, s)
      | Some (None, s) \<Rightarrow> (Panic, s)
      | Some (Some paddr, s) \<Rightarrow>
          (case frames_insert vpn paddr (maa_frames al) of
             None \<Rightarrow> (Panic, s)
           | Some frames \<Rightarrow>
               (case start_addr vpn of
                  None \<Rightarrow> (Panic, s)
                | Some va \<Rightarrow>
                    sbind (sunwrap (im_map_single M va paddr PS_4K permissions s)) (\<lambda>_ s.
                    alloc_map_loop M F permissions vpns (al\<lparr>maa_frames := frames\<rparr>) s))))"

definition alloc_and_map_area ::
  "'s immu \<Rightarrow> 's iframe_allocator \<Rightarrow> mapping_area \<Rightarrow> 's ms_state \<Rightarrow> (unit, string) outcome \<times> 's ms_state" where
  "alloc_and_map_area M F area = (\<lambda>(self, s).
     if ma_allocation area \<noteq> None then (Panic, self, s)
     else let (r, s) = alloc_map_loop M F (ma_permissions area) (pr_iter (ma_range area))
                         create_empty_area_allocation s
          in sbind (r, self, s) (\<lambda>al (self, s).
             (Ok (), self\<lparr>mapping_areas := mapping_areas self @ [area\<lparr>ma_allocation := Some al\<rparr>]\<rparr>, s)))"

definition map_area :: "mapping_area \<Rightarrow> memory_space \<Rightarrow> memory_space option" where
  "map_area area self = do {
     _ \<leftarrow> assert_that (ma_allocation area \<noteq> None);
     Some (self\<lparr>mapping_areas := mapping_areas self @ [area]\<rparr>)
   }"

fun unmap_loop :: "'s immu \<Rightarrow> usize list \<Rightarrow> 's \<Rightarrow> (unit, string) outcome \<times> 's" where
  "unmap_loop M [] s = (Ok (), s)"
| "unmap_loop M (vpn # vpns) s =
     (case start_addr vpn of
        None \<Rightarrow> (Panic, s)
      | Some va \<Rightarrow> sbind (sunwrap (im_unmap_single M va s)) (\<lambda>_ s. unmap_loop M vpns s))"

text \<open>\<^verbatim>\<open>Iterator::position\<close> and \<^verbatim>\<open>Vec::remove\<close>.\<close>

fun position :: "('a \<Rightarrow> bool) \<Rightarrow> 'a list \<Rightarrow> nat option" where
  "position P [] = None"
| "position P (x # xs) = (if P x then Some 0 else map_option Suc (position P xs))"

definition list_remove :: "nat \<Rightarrow> 'a list \<Rightarrow> 'a list" where
  "list_remove i xs = take i xs @ drop (Suc i) xs"

definition unmap_first_area_that ::
  "'s immu \<Rightarrow> 's iframe_allocator \<Rightarrow> (mapping_area \<Rightarrow> bool) \<Rightarrow> 's ms_state \<Rightarrow>
   (bool, string) outcome \<times> 's ms_state" where
  "unmap_first_area_that M F predicate = (\<lambda>(self, s).
     case position predicate (mapping_areas self) of
       Some index \<Rightarrow>
         let area = mapping_areas self ! index;
             self = self\<lparr>mapping_areas := list_remove index (mapping_areas self)\<rparr>;
             (r, s) = unmap_loop M (pr_iter (ma_range area)) s
         in sbind (r, self, s) (\<lambda>_ (self, s).
            (case area_drop F area s of None \<Rightarrow> (Panic, self, s) | Some s \<Rightarrow> (Ok True, self, s)))
     | None \<Rightarrow> (Ok False, self, s))"

definition unmap_area_starts_with ::
  "'s immu \<Rightarrow> 's iframe_allocator \<Rightarrow> usize \<Rightarrow> 's ms_state \<Rightarrow> (bool, string) outcome \<times> 's ms_state" where
  "unmap_area_starts_with M F vpn = unmap_first_area_that M F (\<lambda>area. pr_start (ma_range area) = vpn)"

lemma position_Some: "position P xs = Some i \<Longrightarrow> i < length xs \<and> P (xs ! i) \<and> (\<forall>j<i. \<not> P (xs ! j))"
proof (induction xs arbitrary: i)
  case (Cons x xs)
  then show ?case by (auto split: if_splits simp: nth_Cons less_Suc_eq_0_disj split: nat.splits)
qed simp

lemma position_None: "position P xs = None \<longleftrightarrow> (\<forall>x\<in>set xs. \<not> P x)"
  by (induction xs) auto

lemma unmap_first_areas:
  assumes "unmap_first_area_that M F P (self, s) = (r, self', s')"
  shows "case position P (mapping_areas self) of
      Some i \<Rightarrow> self' = self\<lparr>mapping_areas := list_remove i (mapping_areas self)\<rparr> \<and> r \<noteq> Ok False
    | None \<Rightarrow> self' = self \<and> s' = s \<and> r = Ok False"
proof (cases "position P (mapping_areas self)")
  case (Some i)
  obtain r1 s1 where "unmap_loop M (pr_iter (ma_range (mapping_areas self ! i))) s = (r1, s1)" by (metis surj_pair)
  then show ?thesis
    using assms Some by (cases r1) (auto simp: unmap_first_area_that_def Let_def split: option.splits)
qed (use assms in \<open>simp add: unmap_first_area_that_def\<close>)

lemma length_list_remove [simp]: "i < length xs \<Longrightarrow> length (list_remove i xs) = length xs - 1"
  by (simp add: list_remove_def)

lemma unmap_first_shrinks:
  "unmap_first_area_that M F P (self, s) = (Ok True, self', s') \<Longrightarrow>
   length (mapping_areas self') < length (mapping_areas self)"
  using unmap_first_areas [of M F P self s "Ok True" self' s'] position_Some [of P "mapping_areas self"]
  by (auto split: option.splits)

text \<open>The loop ends because every round removes an area.\<close>

function unmap_all_areas_that ::
  "'s immu \<Rightarrow> 's iframe_allocator \<Rightarrow> (mapping_area \<Rightarrow> bool) \<Rightarrow> 's ms_state \<Rightarrow> (unit, string) outcome \<times> 's ms_state" where
  "unmap_all_areas_that M F predicate st =
     (case unmap_first_area_that M F predicate st of
        (Ok True, st) \<Rightarrow> unmap_all_areas_that M F predicate st
      | (Ok False, st) \<Rightarrow> (Ok (), st)
      | (Err e, st) \<Rightarrow> (Err e, st)
      | (Panic, st) \<Rightarrow> (Panic, st))"
  by pat_completeness auto
termination
  by (relation "measure (\<lambda>(M, F, P, st). length (mapping_areas (fst st)))")
     (simp_all, metis unmap_first_shrinks prod.collapse)

declare unmap_all_areas_that.simps [simp del]

section \<open>Attributes and the break\<close>

definition ms_attr :: "memory_space \<Rightarrow> memory_space_attribute option" where
  "ms_attr self = attr_cell self"

definition brk_start :: "memory_space \<Rightarrow> usize option" where
  "brk_start self = do { a \<leftarrow> ms_attr self; Some (brk_start_field a) }"

definition brk_area_idx :: "memory_space \<Rightarrow> usize option" where
  "brk_area_idx self = do { a \<leftarrow> ms_attr self; Some (brk_area_idx_field a) }"

text \<open>Indexing the areas panics when the index is out of range.\<close>

definition area_at :: "memory_space \<Rightarrow> usize \<Rightarrow> mapping_area option" where
  "area_at self i = (if unat i < length (mapping_areas self) then Some (mapping_areas self ! unat i) else None)"

definition brk_page_range :: "memory_space \<Rightarrow> page_range option" where
  "brk_page_range self = do { i \<leftarrow> brk_area_idx self; a \<leftarrow> area_at self i; Some (ma_range a) }"

definition set_area :: "usize \<Rightarrow> mapping_area \<Rightarrow> memory_space \<Rightarrow> memory_space" where
  "set_area i a self = self\<lparr>mapping_areas := (mapping_areas self)[unat i := a]\<rparr>"

fun brk_loop ::
  "'s immu \<Rightarrow> 's iframe_allocator \<Rightarrow> usize \<Rightarrow> usize list \<Rightarrow> 's ms_state \<Rightarrow> (unit, string) outcome \<times> 's ms_state" where
  "brk_loop M F brk_idx [] st = (Ok (), st)"
| "brk_loop M F brk_idx (vpn # vpns) (self, s) =
     (case ia_alloc_frame F s of
        None \<Rightarrow> (Panic, self, s)
      | Some (None, s) \<Rightarrow> (Panic, self, s)
      | Some (Some paddr, s) \<Rightarrow>
          (case do { area \<leftarrow> area_at self brk_idx; al \<leftarrow> ma_allocation area;
                     frames \<leftarrow> frames_insert vpn paddr (maa_frames al);
                     va \<leftarrow> start_addr vpn;
                     Some (area\<lparr>ma_allocation := Some (al\<lparr>maa_frames := frames\<rparr>)\<rparr>, va) } of
             None \<Rightarrow> (Panic, self, s)
           | Some (area, va) \<Rightarrow>
               let self = set_area brk_idx area self;
                   (r, s) = im_map_single M va paddr PS_4K (ma_permissions area) s
               in sbind (sunwrap (r, self, s)) (\<lambda>_ (self, s). brk_loop M F brk_idx vpns (self, s))))"

definition increase_brk ::
  "'s immu \<Rightarrow> 's iframe_allocator \<Rightarrow> usize \<Rightarrow> 's ms_state \<Rightarrow> (unit, string) outcome \<times> 's ms_state" where
  "increase_brk M F new_end_vpn = (\<lambda>(self, s).
     case do { i \<leftarrow> brk_area_idx self; a \<leftarrow> area_at self i; Some (i, a) } of
       None \<Rightarrow> (Panic, self, s)
     | Some (brk_idx, brk_area) \<Rightarrow>
         if new_end_vpn < pr_start (ma_range brk_area)
         then (Err ''New end is less than the current start'', self, s)
         else let old_end_vpn = pr_end (ma_range brk_area) in
           (case diff_page_count new_end_vpn old_end_vpn of
              None \<Rightarrow> (Panic, self, s)
            | Some page_count \<Rightarrow>
                if page_count = 0 then (Ok (), self, s)
                else (case pr_from_start_count old_end_vpn page_count of
                  None \<Rightarrow> (Panic, self, s)
                | Some increased_range \<Rightarrow>
                    sbind (brk_loop M F brk_idx (pr_iter increased_range) (self, s)) (\<lambda>_ (self, s).
                      (case do { brk_area \<leftarrow> area_at self brk_idx;
                                 r \<leftarrow> pr_from_start_end (pr_start (ma_range brk_area)) new_end_vpn;
                                 Some (brk_area\<lparr>ma_range := r\<rparr>) } of
                         None \<Rightarrow> (Panic, self, s)
                       | Some brk_area \<Rightarrow> (Ok (), set_area brk_idx brk_area self, s))))))"

section \<open>Copies and the signal trampoline\<close>

fun copy_loop :: "'s immu \<Rightarrow> 's immu \<Rightarrow> usize list \<Rightarrow> 's \<Rightarrow> (unit, string) outcome \<times> 's" where
  "copy_loop Mt M [] s = (Ok (), s)"
| "copy_loop Mt M (src_page # pages) s =
     (case start_addr src_page of
        None \<Rightarrow> (Panic, s)
      | Some va \<Rightarrow>
          (case im_read_bytes Mt va PAGE_SIZE s of
             (Ok _, buffer) \<Rightarrow>
               sbind (sunwrap (im_write_bytes M va buffer s)) (\<lambda>_ s. copy_loop Mt M pages s)
           | _ \<Rightarrow> (Panic, s)))"

fun clone_loop ::
  "'s immu \<Rightarrow> 's immu \<Rightarrow> 's iframe_allocator \<Rightarrow> mapping_area list \<Rightarrow> 's ms_state \<Rightarrow>
   (unit, string) outcome \<times> 's ms_state" where
  "clone_loop Mt M F [] st = (Ok (), st)"
| "clone_loop Mt M F (area # areas) st =
     sbind (alloc_and_map_area M F (mapping_area_clone_from area) st) (\<lambda>_ (this, s).
     let (r, s) = copy_loop Mt M (pr_iter (ma_range area)) s
     in sbind (r, this, s) (\<lambda>_ st. clone_loop Mt M F areas st))"

text \<open>The allocator of the copy is the one passed, or the one of the original.\<close>

definition clone_existing ::
  "'s immu \<Rightarrow> 's iframe_allocator \<Rightarrow> memory_space \<Rightarrow> 's immu \<Rightarrow> 's iframe_allocator option \<Rightarrow> 's \<Rightarrow>
   (memory_space, string) outcome \<times> 's" where
  "clone_existing Mt Ft them M F s =
     (let (r, this, s) = clone_loop Mt M (case F of Some F \<Rightarrow> F | None \<Rightarrow> Ft) (mapping_areas them) (ms_new, s)
      in sbind (r, s) (\<lambda>_ s.
         (case (attr_cell this, ms_attr them) of
            (Some _, Some a) \<Rightarrow> (Ok (this\<lparr>attr_cell := Some a\<rparr>), s)
          | _ \<Rightarrow> (Panic, s))))"

definition signal_trampoline :: "memory_space \<Rightarrow> usize option" where
  "signal_trampoline self = do { a \<leftarrow> ms_attr self; start_addr (signal_trampoline_field a) }"

definition TRAMPOLINE_PERMISSIONS :: usize where
  "TRAMPOLINE_PERMISSIONS = Kernel OR User OR Readable OR Executable"

definition register_signal_trampoline ::
  "'s immu \<Rightarrow> usize \<Rightarrow> 's ms_state \<Rightarrow> (unit, string) outcome \<times> 's ms_state" where
  "register_signal_trampoline M sigreturn = (\<lambda>(self, s).
     case signal_trampoline self of
       None \<Rightarrow> (Panic, self, s)
     | Some trampoline_page \<Rightarrow>
         if trampoline_page = null_addr then (Panic, self, s)
         else let (r, s) = im_map_single M trampoline_page sigreturn PS_4K TRAMPOLINE_PERMISSIONS s
           in sbind (sunwrap (r, self, s)) (\<lambda>_ (self, s).
             (case pr_from_start_count (to_floor_page_num trampoline_page) 1 of
                None \<Rightarrow> (Panic, self, s)
              | Some r \<Rightarrow>
                  (Ok (), self\<lparr>mapping_areas := mapping_areas self @
                     [mapping_area_new r SignalTrampoline Framed TRAMPOLINE_PERMISSIONS None]\<rparr>, s))))"

section \<open>The contract of the page table and the frame allocator\<close>

text \<open>What a memory space relies on. \<^verbatim>\<open>mapped\<close> is the frame and the flags of a mapped page, \<^verbatim>\<open>data\<close> the
  frames that are handed out and hold no table, and a page is open when it can be mapped. Frames go
  back to the allocator as they are, so the contract only promises clean free frames again when the
  frame that was returned holds zeros.\<close>

locale address_space =
  fixes M :: "'s immu" and F :: "'s iframe_allocator"
    and base clean_state exhausted :: "'s \<Rightarrow> bool" and data :: "'s \<Rightarrow> usize set"
    and mapped :: "'s \<Rightarrow> usize \<Rightarrow> (usize \<times> usize) option"
    and open_at zero :: "'s \<Rightarrow> usize \<Rightarrow> bool"
    and page_ok flags_ok :: "usize \<Rightarrow> bool" and canon :: "usize \<Rightarrow> usize"
  assumes page_addr: "page_ok v \<Longrightarrow> start_addr v = Some (v * 4096)"
    and alloc_law: "base s \<Longrightarrow> clean_state s \<Longrightarrow> \<exists>x s'. ia_alloc_frame F s = Some (x, s') \<and>
      (case x of None \<Rightarrow> s' = s \<and> exhausted s
       | Some f \<Rightarrow> base s' \<and> clean_state s' \<and> f \<notin> data s \<and> data s' = insert f (data s)
           \<and> mapped s' = mapped s \<and> open_at s' = open_at s \<and> zero s' = zero s)"
    and map_law: "base s \<Longrightarrow> clean_state s \<Longrightarrow> page_ok v \<Longrightarrow> flags_ok fl \<Longrightarrow> f \<in> data s \<Longrightarrow>
      im_map_single M (v * 4096) f PS_4K fl s = (r, s') \<Longrightarrow>
      base s' \<and> clean_state s' \<and> data s' = data s
      \<and> mapped s' = (if r = Ok () then (mapped s)(v \<mapsto> (f, canon fl)) else mapped s)
      \<and> (r = Ok () \<longrightarrow> mapped s v = None) \<and> (open_at s v \<longrightarrow> r = Ok () \<or> exhausted s')
      \<and> (\<forall>v'. open_at s v' \<longrightarrow> v' = v \<or> open_at s' v') \<and> (\<forall>g\<in>data s. zero s' g = zero s g)"
    and unmap_law: "base s \<Longrightarrow> page_ok v \<Longrightarrow> mapped s v = Some (f, fl) \<Longrightarrow>
      \<exists>s'. im_unmap_single M (v * 4096) s = (Ok (f, PS_4K), s') \<and> base s' \<and> (clean_state s \<longrightarrow> clean_state s')
      \<and> data s' = data s \<and> mapped s' = (mapped s)(v := None) \<and> open_at s' v
      \<and> (\<forall>v'. open_at s v' \<longrightarrow> open_at s' v') \<and> (\<forall>g\<in>data s. zero s' g = zero s g)"
    and free_law: "base s \<Longrightarrow> f \<in> data s \<Longrightarrow>
      \<exists>s'. ia_dealloc F s f = Some s' \<and> base s' \<and> data s' = data s - {f} \<and> mapped s' = mapped s
      \<and> open_at s' = open_at s \<and> zero s' = zero s \<and> (clean_state s \<longrightarrow> zero s f \<longrightarrow> clean_state s')"

text \<open>The invariant of the areas: the pages of every area are mapped with its permissions, an area
  with an allocation has one frame per page and maps the page to it, and no page and no frame
  belongs to two areas.\<close>

definition area_pages :: "mapping_area \<Rightarrow> usize list" where
  "area_pages a = pr_iter (ma_range a)"

definition area_frames :: "mapping_area \<Rightarrow> (usize \<times> usize) list" where
  "area_frames a = (case ma_allocation a of None \<Rightarrow> [] | Some al \<Rightarrow> maa_frames al)"

definition area_ok ::
  "(usize \<Rightarrow> (usize \<times> usize) option) \<Rightarrow> usize set \<Rightarrow> (usize \<Rightarrow> usize) \<Rightarrow> mapping_area \<Rightarrow> bool" where
  "area_ok tr D canon a \<longleftrightarrow>
     (\<forall>v\<in>set (area_pages a). \<exists>f. tr v = Some (f, canon (ma_permissions a)))
     \<and> (ma_allocation a \<noteq> None \<longrightarrow> map fst (area_frames a) = area_pages a)
     \<and> (\<forall>(v, f)\<in>set (area_frames a). tr v = Some (f, canon (ma_permissions a)) \<and> f \<in> D)"

definition areas_ok ::
  "(usize \<Rightarrow> (usize \<times> usize) option) \<Rightarrow> usize set \<Rightarrow> (usize \<Rightarrow> usize) \<Rightarrow> mapping_area list \<Rightarrow> bool" where
  "areas_ok tr D canon areas \<longleftrightarrow>
     (\<forall>a\<in>set areas. area_ok tr D canon a)
     \<and> distinct (concat (map area_pages areas))
     \<and> distinct (concat (map (\<lambda>a. map snd (area_frames a)) areas))"

definition space_inv ::
  "('s \<Rightarrow> bool) \<Rightarrow> ('s \<Rightarrow> usize set) \<Rightarrow> ('s \<Rightarrow> usize \<Rightarrow> (usize \<times> usize) option) \<Rightarrow> (usize \<Rightarrow> bool) \<Rightarrow> (usize \<Rightarrow> bool) \<Rightarrow>
   (usize \<Rightarrow> usize) \<Rightarrow> 's ms_state \<Rightarrow> bool" where
  "space_inv base data mapped page_ok flags_ok canon = (\<lambda>(self, s).
     base s \<and> areas_ok (mapped s) (data s) canon (mapping_areas self)
     \<and> (\<forall>a\<in>set (mapping_areas self). flags_ok (ma_permissions a) \<and> (\<forall>v\<in>set (area_pages a). page_ok v)))"

lemma frames_insert_last:
  "\<forall>k'\<in>fst ` set xs. k' < k \<Longrightarrow> frames_insert k v xs = Some (xs @ [(k, v)])"
  by (induction xs) auto

lemma area_frames_page:
  "area_ok tr D canon a \<Longrightarrow> (v, f) \<in> set (area_frames a) \<Longrightarrow> v \<in> set (area_pages a)"
  unfolding area_ok_def by (cases "ma_allocation a") (auto simp: area_frames_def, metis fst_conv image_eqI list.set_map)

lemma area_ok_mono:
  assumes "area_ok tr D canon a" and "\<And>v. v \<in> set (area_pages a) \<Longrightarrow> tr' v = tr v"
    and "\<And>f. f \<in> snd ` set (area_frames a) \<Longrightarrow> f \<in> D'"
  shows "area_ok tr' D' canon a"
  using assms area_frames_page [OF assms(1)] unfolding area_ok_def by fastforce

lemma areas_okD:
  assumes "areas_ok tr D canon areas" and "a \<in> set areas"
  shows "area_ok tr D canon a" and "v \<in> set (area_pages a) \<Longrightarrow> \<exists>f. tr v = Some (f, canon (ma_permissions a))"
    and "f \<in> snd ` set (area_frames a) \<Longrightarrow> f \<in> D"
  using assms by (fastforce simp: areas_ok_def area_ok_def)+

lemma concat_map_split:
  "i < length xs \<Longrightarrow> concat (map g xs) = concat (map g (take i xs)) @ g (xs ! i) @ concat (map g (drop (Suc i) xs))"
  by (metis id_take_nth_drop concat.simps(2) concat_append list.simps(9) map_append)

lemma distinct_concat_remove:
  assumes "i < length xs" and "distinct (concat (map g xs))"
  shows "distinct (concat (map g (list_remove i xs)))"
    and "a \<in> set (list_remove i xs) \<Longrightarrow> set (g a) \<inter> set (g (xs ! i)) = {}"
  using assms(2) unfolding concat_map_split [OF assms(1), of g] by (auto simp: list_remove_def)

lemma areas_ok_remove:
  assumes ok: "areas_ok tr D canon areas" and i: "i < length areas"
    and tr: "\<And>v. v \<notin> set (area_pages (areas ! i)) \<Longrightarrow> tr' v = tr v"
    and D: "D' = D - snd ` set (area_frames (areas ! i))"
  shows "areas_ok tr' D' canon (list_remove i areas)"
proof -
  have d: "distinct (concat (map area_pages areas))" "distinct (concat (map (\<lambda>a. map snd (area_frames a)) areas))"
    using ok by (auto simp: areas_ok_def)
  have "area_ok tr' D' canon a" if a: "a \<in> set (list_remove i areas)" for a
  proof (rule area_ok_mono [of tr D])
    have m: "a \<in> set areas" using a by (auto simp: list_remove_def dest: in_set_takeD in_set_dropD)
    then show "area_ok tr D canon a" using areas_okD(1) [OF ok] by blast
    show "tr' v = tr v" if "v \<in> set (area_pages a)" for v
      using distinct_concat_remove(2) [OF i d(1) a] that by (intro tr) auto
    show "f \<in> D'" if f: "f \<in> snd ` set (area_frames a)" for f
      using distinct_concat_remove(2) [OF i d(2) a] f areas_okD(3) [OF ok m f] unfolding D set_map by blast
  qed
  then show ?thesis
    using distinct_concat_remove(1) [OF i d(1)] distinct_concat_remove(1) [OF i d(2)] unfolding areas_ok_def by blast
qed

context address_space
begin

lemma alloc_map_loop_spec:
  "base s \<Longrightarrow> clean_state s \<Longrightarrow> \<forall>v\<in>set vpns. page_ok v \<Longrightarrow> flags_ok fl \<Longrightarrow>
   sorted_wrt (<) (map fst (maa_frames al) @ vpns) \<Longrightarrow>
   alloc_map_loop M F fl vpns al s = (r, s') \<Longrightarrow>
   base s' \<and> clean_state s' \<and> data s \<subseteq> data s' \<and> (\<forall>v. v \<notin> set vpns \<longrightarrow> mapped s' v = mapped s v)
   \<and> (\<forall>g\<in>data s. zero s' g = zero s g) \<and> (\<forall>v. open_at s v \<longrightarrow> v \<notin> set vpns \<longrightarrow> open_at s' v)
   \<and> (r = Panic \<or> (\<exists>al' fs. r = Ok al' \<and> length fs = length vpns \<and> distinct fs \<and> set fs \<inter> data s = {}
        \<and> data s' = data s \<union> set fs \<and> maa_frames al' = maa_frames al @ zip vpns fs
        \<and> (\<forall>(v, f)\<in>set (zip vpns fs). mapped s v = None \<and> mapped s' v = Some (f, canon fl))))
   \<and> ((\<forall>v\<in>set vpns. open_at s v) \<longrightarrow> r = Panic \<longrightarrow> exhausted s')"
proof (induction vpns arbitrary: al s)
  case (Cons v vpns)
  obtain x s1 where x: "ia_alloc_frame F s = Some (x, s1)"
    and x': "case x of None \<Rightarrow> s1 = s \<and> exhausted s
       | Some f \<Rightarrow> base s1 \<and> clean_state s1 \<and> f \<notin> data s \<and> data s1 = insert f (data s)
           \<and> mapped s1 = mapped s \<and> open_at s1 = open_at s \<and> zero s1 = zero s"
    using alloc_law [OF Cons.prems(1,2)] by blast
  show ?case
  proof (cases x)
    case None
    then show ?thesis using x x' Cons.prems by auto
  next
    case (Some f)
    note a = x' [unfolded Some option.case]
    have ins: "frames_insert v f (maa_frames al) = Some (maa_frames al @ [(v, f)])"
      using Cons.prems(5) by (intro frames_insert_last) (auto simp: sorted_wrt_append)
    have va: "start_addr v = Some (v * 4096)" using page_addr Cons.prems(3) by simp
    obtain r2 s2 where m: "im_map_single M (v * 4096) f PS_4K fl s1 = (r2, s2)" by (metis surj_pair)
    have ml: "base s2 \<and> clean_state s2 \<and> data s2 = data s1
      \<and> mapped s2 = (if r2 = Ok () then (mapped s1)(v \<mapsto> (f, canon fl)) else mapped s1)
      \<and> (r2 = Ok () \<longrightarrow> mapped s1 v = None) \<and> (open_at s1 v \<longrightarrow> r2 = Ok () \<or> exhausted s2)
      \<and> (\<forall>v'. open_at s1 v' \<longrightarrow> v' = v \<or> open_at s2 v') \<and> (\<forall>g\<in>data s1. zero s2 g = zero s1 g)"
      using map_law [OF _ _ _ _ _ m] a Cons.prems by auto
    show ?thesis
    proof (cases "r2 = Ok ()")
      case False
      then have "r = Panic" "s' = s2"
        using Cons.prems(6) x Some ins va m by (cases r2; simp)+
      then show ?thesis using ml a False by auto
    next
      case True
      let ?al = "al\<lparr>maa_frames := maa_frames al @ [(v, f)]\<rparr>"
      have run: "alloc_map_loop M F fl vpns ?al s2 = (r, s')"
        using Cons.prems(6) x Some ins va m True by simp
      have vd: "v \<notin> set vpns" using Cons.prems(5) by (auto simp: sorted_wrt_append)
      note IH = Cons.IH [of s2 ?al, OF _ _ _ Cons.prems(4) _ run]
      have IH: "base s' \<and> clean_state s' \<and> data s2 \<subseteq> data s' \<and> (\<forall>v. v \<notin> set vpns \<longrightarrow> mapped s' v = mapped s2 v)
        \<and> (\<forall>g\<in>data s2. zero s' g = zero s2 g) \<and> (\<forall>v. open_at s2 v \<longrightarrow> v \<notin> set vpns \<longrightarrow> open_at s' v)
        \<and> (r = Panic \<or> (\<exists>al' fs. r = Ok al' \<and> length fs = length vpns \<and> distinct fs \<and> set fs \<inter> data s2 = {}
          \<and> data s' = data s2 \<union> set fs \<and> maa_frames al' = maa_frames ?al @ zip vpns fs
          \<and> (\<forall>(v, f)\<in>set (zip vpns fs). mapped s2 v = None \<and> mapped s' v = Some (f, canon fl))))
        \<and> ((\<forall>v\<in>set vpns. open_at s2 v) \<longrightarrow> r = Panic \<longrightarrow> exhausted s')"
        by (rule IH) (use ml a Cons.prems(3,5) in \<open>auto simp: sorted_wrt_append\<close>)
      have "\<exists>al' fs. r = Ok al' \<and> length fs = length (v # vpns) \<and> distinct fs \<and> set fs \<inter> data s = {}
          \<and> data s' = data s \<union> set fs \<and> maa_frames al' = maa_frames al @ zip (v # vpns) fs
          \<and> (\<forall>(v, f)\<in>set (zip (v # vpns) fs). mapped s v = None \<and> mapped s' v = Some (f, canon fl))"
        if np: "r \<noteq> Panic"
      proof -
        obtain al' fs where fs: "r = Ok al'" "length fs = length vpns" "distinct fs" "set fs \<inter> data s2 = {}"
          "data s' = data s2 \<union> set fs" "maa_frames al' = maa_frames ?al @ zip vpns fs"
          "\<forall>(v, f)\<in>set (zip vpns fs). mapped s2 v = None \<and> mapped s' v = Some (f, canon fl)"
          using IH np by blast
        have "mapped s' v = Some (f, canon fl)" using IH vd ml True by simp
        moreover have "mapped s w = None" if "(w, g) \<in> set (zip vpns fs)" for w g
        proof -
          have "w \<noteq> v" using that vd by (auto dest: set_zip_leftD)
          then show ?thesis using fs(7) that ml True a by auto
        qed
        ultimately show ?thesis
          using fs ml a True by (intro exI [of _ al'] exI [of _ "f # fs"]) auto
      qed
      moreover have op: "open_at s2 w" if "open_at s w" "w \<noteq> v" for w
      proof -
        have "open_at s1 w" using that(1) a by simp
        then show ?thesis using ml that(2) by blast
      qed
      have "exhausted s'" if "\<forall>w\<in>set (v # vpns). open_at s w" "r = Panic"
      proof -
        have "\<forall>w\<in>set vpns. open_at s2 w" using op that(1) vd by (metis list.set_intros(2))
        then show ?thesis using IH that(2) by blast
      qed
      moreover have "mapped s' w = mapped s w" if "w \<notin> set (v # vpns)" for w
      proof -
        have "mapped s' w = mapped s2 w" using IH that by simp
        then show ?thesis using ml a True that by simp
      qed
      moreover have "open_at s' w" if "open_at s w" "w \<notin> set (v # vpns)" for w
      proof -
        have "open_at s2 w" using op that by simp
        then show ?thesis using IH that(2) by simp
      qed
      moreover have "zero s' g = zero s g" if "g \<in> data s" for g
      proof -
        have "zero s' g = zero s2 g" using IH ml a that by simp
        then show ?thesis using ml a that by simp
      qed
      moreover have "data s \<subseteq> data s'" using IH ml a by blast
      moreover have "base s'" "clean_state s'" using IH by blast+
      ultimately show ?thesis by blast
    qed
  qed
qed auto


abbreviation "minv \<equiv> space_inv base data mapped page_ok flags_ok canon"

lemma alloc_and_map_area_spec:
  assumes minv: "minv (self, s)" and cl: "clean_state s" and none: "ma_allocation area = None"
    and ok: "\<forall>v\<in>set (area_pages area). page_ok v" "flags_ok (ma_permissions area)"
    and run: "alloc_and_map_area M F area (self, s) = (r, self', s')"
  shows "(r = Ok () \<or> r = Panic) \<and> clean_state s' \<and> attr_cell self' = attr_cell self
    \<and> (\<forall>v. v \<notin> set (area_pages area) \<longrightarrow> mapped s' v = mapped s v)
    \<and> ((\<forall>v\<in>set (area_pages area). open_at s v) \<longrightarrow> r = Panic \<longrightarrow> exhausted s')
    \<and> (\<forall>v. open_at s v \<longrightarrow> v \<notin> set (area_pages area) \<longrightarrow> open_at s' v)
    \<and> (r = Ok () \<longrightarrow> minv (self', s') \<and> (\<forall>v\<in>set (area_pages area). mapped s v = None)
        \<and> (\<exists>al. mapping_areas self' = mapping_areas self @ [area\<lparr>ma_allocation := Some al\<rparr>]
             \<and> data s' = data s \<union> snd ` set (maa_frames al) \<and> snd ` set (maa_frames al) \<inter> data s = {}))"
proof -
  obtain r1 s1 where l: "alloc_map_loop M F (ma_permissions area) (area_pages area) create_empty_area_allocation s = (r1, s1)"
    by (metis surj_pair)
  have base: "base s" and ao: "areas_ok (mapped s) (data s) canon (mapping_areas self)"
    and aok: "\<forall>a\<in>set (mapping_areas self). flags_ok (ma_permissions a) \<and> (\<forall>v\<in>set (area_pages a). page_ok v)"
    using minv by (auto simp: space_inv_def)
  have "sorted_wrt (<) (area_pages area)"
    using sorted_iter_items distinct_iter_items by (simp add: area_pages_def pr_iter_def strict_sorted_iff)
  then have "sorted_wrt (<) (map fst (maa_frames create_empty_area_allocation) @ area_pages area)"
    by (simp add: create_empty_area_allocation_def)
  note loop = alloc_map_loop_spec [OF base cl ok this l]
  have st: "s' = s1" "r = Ok () \<longleftrightarrow> (\<exists>al. r1 = Ok al)" "r = Ok () \<or> r = Panic" "attr_cell self' = attr_cell self"
    "\<And>al. r1 = Ok al \<Longrightarrow> mapping_areas self' = mapping_areas self @ [area\<lparr>ma_allocation := Some al\<rparr>]"
    using run none l loop by (cases r1; auto simp: alloc_and_map_area_def area_pages_def)+
  have "minv (self', s') \<and> (\<forall>v\<in>set (area_pages area). mapped s v = None)
        \<and> (\<exists>al. mapping_areas self' = mapping_areas self @ [area\<lparr>ma_allocation := Some al\<rparr>]
             \<and> data s' = data s \<union> snd ` set (maa_frames al) \<and> snd ` set (maa_frames al) \<inter> data s = {})" if "r = Ok ()"
  proof -
    obtain al fs where al: "r1 = Ok al" "length fs = length (area_pages area)" "distinct fs" "set fs \<inter> data s = {}"
      "data s' = data s \<union> set fs" "maa_frames al = zip (area_pages area) fs"
      and tr: "\<forall>(v, f)\<in>set (zip (area_pages area) fs). mapped s v = None \<and> mapped s' v = Some (f, canon (ma_permissions area))"
      using loop st(1,2) \<open>r = Ok ()\<close> by (auto simp: create_empty_area_allocation_def)
    let ?a = "area\<lparr>ma_allocation := Some al\<rparr>"
    have fr: "area_frames ?a = zip (area_pages area) fs" "area_pages ?a = area_pages area"
      using al(6) by (simp_all add: area_frames_def area_pages_def)
    have new: "\<exists>f. mapped s v = None \<and> mapped s' v = Some (f, canon (ma_permissions area)) \<and> (v, f) \<in> set (zip (area_pages area) fs)"
      if "v \<in> set (area_pages area)" for v
    proof -
      obtain i where i: "i < length (area_pages area)" "v = area_pages area ! i"
        using \<open>v \<in> set (area_pages area)\<close> by (auto simp: in_set_conv_nth)
      then have "(v, fs ! i) \<in> set (zip (area_pages area) fs)" using al(2) by (auto simp: set_zip)
      then show ?thesis using tr by auto
    qed
    have ok_new: "area_ok (mapped s') (data s') canon ?a"
      unfolding area_ok_def fr using new tr al(2,5) by (fastforce dest: set_zip_rightD)
    have pages_old: "v \<notin> set (area_pages area)" if "a \<in> set (mapping_areas self)" "v \<in> set (area_pages a)" for a v
      using new [of v] areas_okD(2) [OF ao that] by auto
    have frames_old: "f \<in> data s" if "a \<in> set (mapping_areas self)" "f \<in> snd ` set (area_frames a)" for a f
      using areas_okD(3) [OF ao that] .
    have "area_ok (mapped s') (data s') canon a" if "a \<in> set (mapping_areas self)" for a
      by (rule area_ok_mono [of "mapped s" "data s"])
        (use ao that loop st(1) pages_old [OF that] frames_old [OF that] in \<open>auto simp: areas_ok_def\<close>)
    moreover have "set (concat (map area_pages (mapping_areas self))) \<inter> set (area_pages area) = {}"
      using pages_old by auto
    moreover have "set (concat (map (\<lambda>a. map snd (area_frames a)) (mapping_areas self))) \<inter> set fs = {}"
      using frames_old al(4) by fastforce
    moreover have "map snd (area_frames ?a) = fs" using fr al(2) by simp
    moreover have "distinct (area_pages ?a)" by (simp add: area_pages_def pr_iter_def)
    ultimately have "areas_ok (mapped s') (data s') canon (mapping_areas self')"
      using ok_new ao al(3) unfolding st(5) [OF al(1)] areas_ok_def fr
      by (simp only: map_append concat_append list.simps distinct_append concat.simps append_Nil2 fr) auto
    then have "minv (self', s')"
      using conjunct1 [OF loop] st(1) st(5) [OF al(1)] aok ok fr(2) by (auto simp: space_inv_def)
    moreover have "snd ` set (maa_frames al) = set fs" using al(2,6) by (metis list.set_map map_snd_zip)
    ultimately show ?thesis using new st(5) [OF al(1)] al(4,5) by auto
  qed
  then show ?thesis using loop st by auto
qed


lemma unmap_loop_spec:
  "base s \<Longrightarrow> \<forall>v\<in>set vpns. page_ok v \<and> mapped s v \<noteq> None \<Longrightarrow> distinct vpns \<Longrightarrow>
   \<exists>s'. unmap_loop M vpns s = (Ok (), s') \<and> base s' \<and> (clean_state s \<longrightarrow> clean_state s') \<and> data s' = data s
    \<and> mapped s' = (\<lambda>v. if v \<in> set vpns then None else mapped s v) \<and> (\<forall>v\<in>set vpns. open_at s' v)
    \<and> (\<forall>v. open_at s v \<longrightarrow> open_at s' v) \<and> (\<forall>g\<in>data s. zero s' g = zero s g)"
proof (induction vpns arbitrary: s)
  case (Cons v vpns)
  obtain f fl where m: "mapped s v = Some (f, fl)" "page_ok v" using Cons.prems(2) by auto
  obtain s1 where s1: "im_unmap_single M (v * 4096) s = (Ok (f, PS_4K), s1)" "base s1"
      "clean_state s \<longrightarrow> clean_state s1" "data s1 = data s" "mapped s1 = (mapped s)(v := None)" "open_at s1 v"
      "\<forall>v'. open_at s v' \<longrightarrow> open_at s1 v'" "\<forall>g\<in>data s. zero s1 g = zero s g"
    using unmap_law [OF Cons.prems(1) m(2,1)] by blast
  have "\<forall>v\<in>set vpns. page_ok v \<and> mapped s1 v \<noteq> None" using Cons.prems s1(5) by auto
  then obtain s' where "unmap_loop M vpns s1 = (Ok (), s')" "base s'" "clean_state s1 \<longrightarrow> clean_state s'"
      "data s' = data s1" "mapped s' = (\<lambda>v. if v \<in> set vpns then None else mapped s1 v)"
      "\<forall>v\<in>set vpns. open_at s' v" "\<forall>v. open_at s1 v \<longrightarrow> open_at s' v" "\<forall>g\<in>data s1. zero s' g = zero s1 g"
    using Cons.IH [OF s1(2)] Cons.prems(3) by auto
  then show ?case
    using s1 page_addr Cons.prems by (intro exI [of _ s']) (auto simp: fun_eq_iff)
qed simp

lemma area_drop_loop_spec:
  "base s \<Longrightarrow> distinct (map snd fr) \<Longrightarrow> snd ` set fr \<subseteq> data s \<Longrightarrow>
   \<exists>s'. area_drop_loop F fr s = Some s' \<and> base s' \<and> data s' = data s - snd ` set fr \<and> mapped s' = mapped s
    \<and> open_at s' = open_at s \<and> zero s' = zero s
    \<and> (clean_state s \<longrightarrow> (\<forall>f\<in>snd ` set fr. zero s f) \<longrightarrow> clean_state s')"
proof (induction fr arbitrary: s)
  case (Cons x fr)
  obtain v f where x: "x = (v, f)" by (cases x)
  obtain s1 where s1: "ia_dealloc F s f = Some s1" "base s1" "data s1 = data s - {f}" "mapped s1 = mapped s"
      "open_at s1 = open_at s" "zero s1 = zero s" "clean_state s \<longrightarrow> zero s f \<longrightarrow> clean_state s1"
    using free_law [OF Cons.prems(1), of f] Cons.prems(3) x by auto
  have "snd ` set fr \<subseteq> data s1" using Cons.prems(2,3) s1(3) x by auto
  then obtain s' where "area_drop_loop F fr s1 = Some s'" "base s'" "data s' = data s1 - snd ` set fr"
      "mapped s' = mapped s1" "open_at s' = open_at s1" "zero s' = zero s1"
      "clean_state s1 \<longrightarrow> (\<forall>f\<in>snd ` set fr. zero s1 f) \<longrightarrow> clean_state s'"
    using Cons.IH [OF s1(2)] Cons.prems(2) by auto
  then show ?case using s1 x by (intro exI [of _ s']) auto
qed simp

lemma unmap_first_area_that_spec:
  assumes inv: "minv (self, s)" and pos: "position P (mapping_areas self) = Some i"
  defines "area \<equiv> mapping_areas self ! i"
  shows "\<exists>s'. unmap_first_area_that M F P (self, s) =
      (Ok True, self\<lparr>mapping_areas := list_remove i (mapping_areas self)\<rparr>, s')
    \<and> minv (self\<lparr>mapping_areas := list_remove i (mapping_areas self)\<rparr>, s')
    \<and> data s' = data s - snd ` set (area_frames area)
    \<and> mapped s' = (\<lambda>v. if v \<in> set (area_pages area) then None else mapped s v)
    \<and> (\<forall>v\<in>set (area_pages area). open_at s' v)
    \<and> (\<forall>v. open_at s v \<longrightarrow> open_at s' v) \<and> (\<forall>g\<in>data s. zero s' g = zero s g)
    \<and> (clean_state s \<longrightarrow> (\<forall>f\<in>snd ` set (area_frames area). zero s f) \<longrightarrow> clean_state s')"
proof -
  have base: "base s" and ao: "areas_ok (mapped s) (data s) canon (mapping_areas self)"
    and aok: "\<forall>a\<in>set (mapping_areas self). flags_ok (ma_permissions a) \<and> (\<forall>v\<in>set (area_pages a). page_ok v)"
    using inv by (auto simp: space_inv_def)
  have i: "i < length (mapping_areas self)" using position_Some [OF pos] by simp
  then have a: "area \<in> set (mapping_areas self)" by (simp add: area_def)
  have "\<forall>v\<in>set (area_pages area). page_ok v \<and> mapped s v \<noteq> None" using areas_okD(2) [OF ao a] aok a by fastforce
  then obtain s1 where s1: "unmap_loop M (area_pages area) s = (Ok (), s1)" "base s1" "clean_state s \<longrightarrow> clean_state s1"
      "data s1 = data s" "mapped s1 = (\<lambda>v. if v \<in> set (area_pages area) then None else mapped s v)"
      "\<forall>v\<in>set (area_pages area). open_at s1 v" "\<forall>v. open_at s v \<longrightarrow> open_at s1 v" "\<forall>g\<in>data s. zero s1 g = zero s g"
    using unmap_loop_spec [OF base, of "area_pages area"] by (auto simp: area_pages_def pr_iter_def)
  have "distinct (map snd (area_frames area))"
    using ao concat_map_split [OF i, of "\<lambda>a. map snd (area_frames a)"] by (auto simp: areas_ok_def area_def)
  then obtain s' where s': "area_drop_loop F (area_frames area) s1 = Some s'" "base s'"
      "data s' = data s1 - snd ` set (area_frames area)" "mapped s' = mapped s1" "open_at s' = open_at s1" "zero s' = zero s1"
      "clean_state s1 \<longrightarrow> (\<forall>f\<in>snd ` set (area_frames area). zero s1 f) \<longrightarrow> clean_state s'"
    using area_drop_loop_spec [OF s1(2), of "area_frames area"] areas_okD(3) [OF ao a] s1(4) by auto
  have drop: "area_drop F area s1 = Some s'"
    using s'(1) by (cases "ma_allocation area") (simp_all add: area_drop_def area_frames_def)
  have "areas_ok (mapped s') (data s') canon (list_remove i (mapping_areas self))"
    by (rule areas_ok_remove [OF ao i]) (use s1 s' in \<open>auto simp: area_def\<close>)
  moreover have "set (list_remove i (mapping_areas self)) \<subseteq> set (mapping_areas self)"
    by (auto simp: list_remove_def dest: in_set_takeD in_set_dropD)
  ultimately have "minv (self\<lparr>mapping_areas := list_remove i (mapping_areas self)\<rparr>, s')"
    using aok s'(2) by (auto simp: space_inv_def)
  moreover have "\<forall>f\<in>snd ` set (area_frames area). zero s1 f = zero s f"
    using s1(8) areas_okD(3) [OF ao a] by blast
  ultimately show ?thesis
    using pos s1 s' drop
    by (intro exI [of _ s']) (auto simp: unmap_first_area_that_def area_def area_pages_def Let_def)
qed


lemma unmap_all_areas_that_spec:
  "minv (self, s) \<Longrightarrow>
   \<exists>s'. unmap_all_areas_that M F P (self, s) =
      (Ok (), self\<lparr>mapping_areas := filter (\<lambda>a. \<not> P a) (mapping_areas self)\<rparr>, s')
    \<and> minv (self\<lparr>mapping_areas := filter (\<lambda>a. \<not> P a) (mapping_areas self)\<rparr>, s')
    \<and> data s' = data s - (\<Union>a\<in>{a \<in> set (mapping_areas self). P a}. snd ` set (area_frames a))
    \<and> mapped s' = (\<lambda>v. if \<exists>a\<in>set (mapping_areas self). P a \<and> v \<in> set (area_pages a) then None else mapped s v)"
proof (induction "length (mapping_areas self)" arbitrary: self s rule: less_induct)
  case less
  show ?case
  proof (cases "position P (mapping_areas self)")
    case None
    then have none: "\<forall>a\<in>set (mapping_areas self). \<not> P a" by (simp add: position_None)
    then have "filter (\<lambda>a. \<not> P a) (mapping_areas self) = mapping_areas self" by (simp add: filter_id_conv)
    moreover have "unmap_all_areas_that M F P (self, s) = (Ok (), self, s)"
      using None by (subst unmap_all_areas_that.simps) (simp add: unmap_first_area_that_def)
    ultimately show ?thesis using none less.prems by (auto intro!: exI [of _ s] simp: fun_eq_iff)
  next
    case (Some i)
    let ?a = "mapping_areas self ! i" and ?self = "self\<lparr>mapping_areas := list_remove i (mapping_areas self)\<rparr>"
    obtain s1 where s1: "unmap_first_area_that M F P (self, s) = (Ok True, ?self, s1)" "minv (?self, s1)"
        "data s1 = data s - snd ` set (area_frames ?a)"
        "mapped s1 = (\<lambda>v. if v \<in> set (area_pages ?a) then None else mapped s v)"
      using unmap_first_area_that_spec [OF less.prems Some] by blast
    have i: "i < length (mapping_areas self)" "P ?a" using position_Some [OF Some] by auto
    have split: "mapping_areas self = take i (mapping_areas self) @ ?a # drop (Suc i) (mapping_areas self)"
      using id_take_nth_drop [OF i(1)] .
    have fl: "filter (\<lambda>a. \<not> P a) (list_remove i (mapping_areas self)) = filter (\<lambda>a. \<not> P a) (mapping_areas self)"
      using i(2) unfolding list_remove_def by (subst (3) split) simp
    have st: "set (mapping_areas self) = insert ?a (set (list_remove i (mapping_areas self)))"
      unfolding list_remove_def by (subst split) auto
    have lt: "length (mapping_areas ?self) < length (mapping_areas self)"
      using i(1) length_list_remove [OF i(1)] by (simp del: length_list_remove)
    obtain s' where s': "unmap_all_areas_that M F P (?self, s1) =
          (Ok (), ?self\<lparr>mapping_areas := filter (\<lambda>a. \<not> P a) (mapping_areas ?self)\<rparr>, s')"
        "minv (?self\<lparr>mapping_areas := filter (\<lambda>a. \<not> P a) (mapping_areas ?self)\<rparr>, s')"
        "data s' = data s1 - (\<Union>a\<in>{a \<in> set (mapping_areas ?self). P a}. snd ` set (area_frames a))"
        "mapped s' = (\<lambda>v. if \<exists>a\<in>set (mapping_areas ?self). P a \<and> v \<in> set (area_pages a) then None else mapped s1 v)"
      using less.hyps [OF lt s1(2)] by blast
    have "unmap_all_areas_that M F P (self, s) = unmap_all_areas_that M F P (?self, s1)"
      using s1(1) by (subst unmap_all_areas_that.simps) simp
    moreover have "data s' = data s - (\<Union>a\<in>{a \<in> set (mapping_areas self). P a}. snd ` set (area_frames a))"
      unfolding s'(3) s1(3) st using i(2) by auto
    moreover have "mapped s' = (\<lambda>v. if \<exists>a\<in>set (mapping_areas self). P a \<and> v \<in> set (area_pages a) then None else mapped s v)"
      unfolding s'(4) s1(4) st using i(2) by (auto simp: fun_eq_iff)
    ultimately show ?thesis using s'(1,2) fl by (intro exI [of _ s']) simp
  qed
qed


end

text \<open>Growing the break runs the loop of an area allocation on the last area's frames.\<close>

lemma brk_loop_eq:
  assumes "area_at self i = Some a" and "ma_allocation a = Some al"
  shows "case alloc_map_loop M F (ma_permissions a) vpns al s of
      (Ok al', s') \<Rightarrow> brk_loop M F i vpns (self, s) = (Ok (), set_area i (a\<lparr>ma_allocation := Some al'\<rparr>) self, s')
    | (_, s') \<Rightarrow> \<exists>self'. brk_loop M F i vpns (self, s) = (Panic, self', s')"
  using assms
proof (induction vpns arbitrary: self a al s)
  case Nil
  have "a\<lparr>ma_allocation := Some al\<rparr> = a" using Nil.prems(2) by (cases a) simp
  moreover have "(mapping_areas self)[unat i := a] = mapping_areas self"
    using Nil.prems(1) by (auto simp: area_at_def split: if_splits)
  ultimately show ?case by (simp add: set_area_def)
next
  case (Cons v vpns)
  show ?case
  proof (cases "ia_alloc_frame F s")
    case (Some p)
    obtain x s1 where p: "p = (x, s1)" by (cases p)
    show ?thesis
    proof (cases x)
      case f: (Some f)
      show ?thesis
      proof (cases "frames_insert v f (maa_frames al)")
        case fr: (Some fr)
        show ?thesis
        proof (cases "start_addr v")
          case va: (Some va)
          let ?a = "a\<lparr>ma_allocation := Some (al\<lparr>maa_frames := fr\<rparr>)\<rparr>"
          obtain r s2 where m: "im_map_single M va f PS_4K (ma_permissions a) s1 = (r, s2)" by (metis surj_pair)
          have at: "area_at (set_area i ?a self) i = Some ?a"
            using Cons.prems(1) by (auto simp: area_at_def set_area_def split: if_splits)
          have st: "set_area i b (set_area i ?a self) = set_area i b self" for b by (simp add: set_area_def)
          show ?thesis
          proof (cases r)
            case (Ok u)
            have b1: "brk_loop M F i (v # vpns) (self, s) = brk_loop M F i vpns (set_area i ?a self, s2)"
              using Some p f fr va m Ok Cons.prems by (simp add: Let_def)
            have b2: "alloc_map_loop M F (ma_permissions a) (v # vpns) al s =
                alloc_map_loop M F (ma_permissions a) vpns (al\<lparr>maa_frames := fr\<rparr>) s2"
              using Some p f fr va m Ok by simp
            obtain r3 s3 where r3: "alloc_map_loop M F (ma_permissions a) vpns (al\<lparr>maa_frames := fr\<rparr>) s2 = (r3, s3)"
              by (metis surj_pair)
            show ?thesis
              using Cons.IH [OF at, of "al\<lparr>maa_frames := fr\<rparr>" s2] r3 st unfolding b1 b2 by (cases r3) simp_all
          qed (use Some p f fr va m Cons.prems in simp_all)
        qed (use Some p f fr Cons.prems in simp)
      qed (use Some p f Cons.prems in simp)
    qed (use Some p in simp)
  qed simp
qed

lemma iter_items_append:
  assumes "c \<le> d" "d \<le> e"
  shows "iter_items e c = iter_items d c @ iter_items e d"
proof -
  have "map unat (iter_items e c) = map unat (iter_items d c @ iter_items e d)"
    using assms upt_add_eq_append [of "unat c" "unat d" "unat e - unat d"]
    by (simp add: iter_items_map word_le_nat_alt)
  then show ?thesis by (rule map_injective) (auto intro!: injI dest: word_unat_eq_iff [THEN iffD2])
qed

lemma distinct_concat_extend:
  assumes "i < length xs" and "distinct (concat (map g xs))" and "g y = g (xs ! i) @ ex" and "distinct ex"
    and "set ex \<inter> set (concat (map g xs)) = {}"
  shows "distinct (concat (map g (xs[i := y])))"
proof -
  have "concat (map g (xs[i := y])) = concat (map g (take i xs)) @ g y @ concat (map g (drop (Suc i) xs))"
    using assms(1) by (simp add: upd_conv_take_nth_drop)
  then show ?thesis
    using assms(2-5) unfolding concat_map_split [OF assms(1), of g] by auto
qed

lemma in_i64_uint: "int (unat x) < 2 ^ 63 \<Longrightarrow> in_i64 (int (unat (x :: usize)))"
  unfolding in_i64_def using of_nat_0_le_iff [of "unat x", where ?'a = int] by linarith

lemma sint_small: "unat x < 2 ^ 63 \<Longrightarrow> sint (x :: i64) = int (unat x)"
proof -
  assume "unat x < 2 ^ 63"
  then have "int (unat x) < int (2 ^ 63)" by (simp only: of_nat_less_iff)
  then have "in_i64 (int (unat x))" by (intro in_i64_uint) simp
  from sint_i64_of [OF this] show ?thesis by (simp add: i64_of_def)
qed

lemma grown_range:
  assumes "old \<le> new" and "unat new < 2 ^ 63"
  shows "diff_page_count new old = Some (new - old)"
    and "pr_from_start_count old (new - old) = Some \<lparr>pr_start = old, pr_end = new\<rparr>"
proof -
  have o: "unat old \<le> unat new" using assms(1) by (simp add: word_le_nat_alt)
  then have s: "sint new - sint old = int (unat (new - old))"
    using sint_small [OF assms(2)] sint_small [of old] assms(2) by (simp add: unat_sub [OF assms(1)] of_nat_diff)
  have "int (unat (new - old)) < int (2 ^ 63)"
    using assms(2) unfolding of_nat_less_iff unat_sub [OF assms(1)] by linarith
  then have "in_i64 (sint new - sint old)" unfolding s by (intro in_i64_uint) simp
  then show "diff_page_count new old = Some (new - old)"
    unfolding diff_page_count_def chk_i64_def s by (simp add: i64_of_def)
  show "pr_from_start_count old (new - old) = Some \<lparr>pr_start = old, pr_end = new\<rparr>"
    using o unat_lt_u64 [of new] by (simp add: pr_from_start_count_def uadd_def unat_sub [OF assms(1)])
qed

lemma areas_ok_extend:
  assumes ao: "areas_ok tr D canon areas" and i: "i < length areas"
    and a': "area_pages a' = area_pages (areas ! i) @ vs" "area_frames a' = area_frames (areas ! i) @ zip vs fs"
      "ma_permissions a' = ma_permissions (areas ! i)" "ma_allocation (areas ! i) \<noteq> None"
    and fs: "length fs = length vs" "distinct fs" "distinct vs" "set fs \<inter> D = {}"
    and new: "\<forall>(v, f)\<in>set (zip vs fs). tr v = None \<and> tr' v = Some (f, canon (ma_permissions (areas ! i)))"
    and keep: "\<And>v. v \<notin> set vs \<Longrightarrow> tr' v = tr v"
  shows "areas_ok tr' (D \<union> set fs) canon (areas[i := a'])"
proof -
  have a: "areas ! i \<in> set areas" using i by simp
  have nw: "\<exists>f. tr v = None \<and> tr' v = Some (f, canon (ma_permissions (areas ! i)))" if v: "v \<in> set vs" for v
  proof -
    obtain f where "(v, f) \<in> set (zip vs fs)" using in_set_impl_in_set_zip1 [OF fs(1) [symmetric] v] by blast
    then show ?thesis using new by blast
  qed
  have old: "v \<notin> set vs" if "b \<in> set areas" "v \<in> set (area_pages b)" for b v
    using nw [of v] areas_okD(2) [OF ao that] by auto
  have ok: "area_ok tr' (D \<union> set fs) canon b" if "b \<in> set areas" for b
    by (rule area_ok_mono [OF areas_okD(1) [OF ao that]]) (use keep old [OF that] areas_okD(3) [OF ao that] in auto)
  have "area_ok tr' (D \<union> set fs) canon a'"
    using ok [OF a] nw new a'(4) unfolding area_ok_def a'(1-3) by (fastforce dest: set_zip_rightD simp: fs(1))
  moreover have "distinct (concat (map area_pages (areas[i := a'])))"
    by (rule distinct_concat_extend [where ex = vs]) (use i ao a' fs old in \<open>auto simp: areas_ok_def\<close>)
  moreover have "set fs \<inter> set (concat (map (\<lambda>a. map snd (area_frames a)) areas)) = {}"
    using fs(4) areas_okD(3) [OF ao] by fastforce
  then have "distinct (concat (map (\<lambda>a. map snd (area_frames a)) (areas[i := a'])))"
    by (intro distinct_concat_extend [where ex = fs]) (use i ao a' fs in \<open>auto simp: areas_ok_def\<close>)
  ultimately show ?thesis
    using ok unfolding areas_ok_def by (auto dest!: set_update_subset_insert [THEN subsetD])
qed

context address_space
begin

lemma increase_brk_spec:
  assumes inv: "space_inv base data mapped page_ok flags_ok canon (self, s)" and cl: "clean_state s"
    and i: "brk_area_idx self = Some i" "area_at self i = Some a" and al: "ma_allocation a = Some al"
    and r: "pr_start (ma_range a) \<le> pr_end (ma_range a)" "pr_end (ma_range a) \<le> new" "unat new < 2 ^ 63"
    and ok: "\<forall>v. pr_end (ma_range a) \<le> v \<longrightarrow> v < new \<longrightarrow> page_ok v"
    and run: "increase_brk M F new (self, s) = (res, self', s')"
  shows "(res = Ok () \<or> res = Panic)
    \<and> ((\<forall>v. pr_end (ma_range a) \<le> v \<longrightarrow> v < new \<longrightarrow> open_at s v) \<longrightarrow> res = Panic \<longrightarrow> exhausted s')
    \<and> (res = Ok () \<longrightarrow> space_inv base data mapped page_ok flags_ok canon (self', s') \<and> clean_state s'
       \<and> attr_cell self' = attr_cell self
       \<and> (\<exists>al'. mapping_areas self' = (mapping_areas self)[unat i :=
            a\<lparr>ma_range := \<lparr>pr_start = pr_start (ma_range a), pr_end = new\<rparr>, ma_allocation := Some al'\<rparr>])
       \<and> (\<forall>v. v < pr_end (ma_range a) \<or> new \<le> v \<longrightarrow> mapped s' v = mapped s v))"
proof -
  let ?vs = "iter_items new (pr_end (ma_range a))"
  have base: "base s" and ao: "areas_ok (mapped s) (data s) canon (mapping_areas self)"
    and aok: "\<forall>a\<in>set (mapping_areas self). flags_ok (ma_permissions a) \<and> (\<forall>v\<in>set (area_pages a). page_ok v)"
    using inv by (auto simp: space_inv_def)
  have ix: "unat i < length (mapping_areas self)" "a = mapping_areas self ! unat i" "a \<in> set (mapping_areas self)"
    using i(2) by (auto simp: area_at_def split: if_splits)
  have vs: "set ?vs = {v. pr_end (ma_range a) \<le> v \<and> v < new}" by (simp add: set_iter_items)
  have pages: "area_pages a = iter_items (pr_end (ma_range a)) (pr_start (ma_range a))"
    by (simp add: area_pages_def pr_iter_def)
  have fst_al: "map fst (maa_frames al) = area_pages a"
    using areas_okD(1) [OF ao ix(3)] al by (simp add: area_ok_def area_frames_def)
  have app: "iter_items new (pr_start (ma_range a)) = area_pages a @ ?vs"
    using iter_items_append [OF r(1,2)] pages by simp
  have srt: "sorted_wrt (<) (map fst (maa_frames al) @ ?vs)"
    using sorted_iter_items [of new "pr_start (ma_range a)"] distinct_iter_items [of new "pr_start (ma_range a)"]
    unfolding fst_al app [symmetric] by (simp add: strict_sorted_iff)
  obtain r1 s1 where l: "alloc_map_loop M F (ma_permissions a) ?vs al s = (r1, s1)" by (metis surj_pair)
  have okv: "\<forall>v\<in>set ?vs. page_ok v" using ok vs by auto
  note loop = alloc_map_loop_spec [OF base cl okv _ srt l]
  have fl: "flags_ok (ma_permissions a)" using aok ix(3) by blast
  note loop = loop [OF fl]
  note bl = brk_loop_eq [OF i(2) al, where vpns = ?vs and M = M and F = F and s = s, unfolded l]
  have nlt: "\<not> new < pr_start (ma_range a)" using r(1,2) by (meson leD order_trans)
  note gr = grown_range [OF r(2,3)]
  show ?thesis
  proof (cases "new = pr_end (ma_range a)")
    case True
    have a_id: "a\<lparr>ma_range := \<lparr>pr_start = pr_start (ma_range a), pr_end = new\<rparr>, ma_allocation := Some al\<rparr> = a"
      using True al by (cases a; cases "ma_range a") simp
    have "res = Ok ()" "self' = self" "s' = s"
      using run i nlt gr True by (auto simp: increase_brk_def)
    then show ?thesis using inv cl a_id ix by (auto intro!: exI [of _ al])
  next
    case False
    have pc: "new - pr_end (ma_range a) \<noteq> 0" using False by simp
    have it: "pr_iter \<lparr>pr_start = pr_end (ma_range a), pr_end = new\<rparr> = ?vs" by (simp add: pr_iter_def)
    have inc: "increase_brk M F new (self, s) =
       sbind (brk_loop M F i ?vs (self, s)) (\<lambda>_ (self, s).
         (case do { brk_area \<leftarrow> area_at self i;
                    r \<leftarrow> pr_from_start_end (pr_start (ma_range brk_area)) new;
                    Some (brk_area\<lparr>ma_range := r\<rparr>) } of
            None \<Rightarrow> (Panic, self, s)
          | Some brk_area \<Rightarrow> (Ok (), set_area i brk_area self, s)))"
      using i nlt gr pc it by (simp add: increase_brk_def)
    show ?thesis
    proof (cases r1)
      case (Ok al')
      let ?a = "a\<lparr>ma_range := \<lparr>pr_start = pr_start (ma_range a), pr_end = new\<rparr>, ma_allocation := Some al'\<rparr>"
      have st: "pr_start (ma_range a) \<le> new" using r(1,2) by (rule order_trans)
      have comm: "a\<lparr>ma_allocation := Some al', ma_range := R\<rparr> = a\<lparr>ma_range := R, ma_allocation := Some al'\<rparr>" for R
        by simp
      have run': "res = Ok ()" "s' = s1" "self' = set_area i ?a self"
        using run bl Ok ix(1) st unfolding inc
        by (auto simp: area_at_def set_area_def pr_from_start_end_def assert_that_def comm)
      obtain fs where fs: "length fs = length ?vs" "distinct fs" "set fs \<inter> data s = {}" "data s1 = data s \<union> set fs"
          "maa_frames al' = maa_frames al @ zip ?vs fs"
        and tr: "\<forall>(v, f)\<in>set (zip ?vs fs). mapped s v = None \<and> mapped s1 v = Some (f, canon (ma_permissions a))"
        using loop Ok by auto
      have pa: "area_pages ?a = area_pages a @ ?vs" using app by (simp add: area_pages_def pr_iter_def)
      have fa: "area_frames ?a = area_frames a @ zip ?vs fs" using fs(5) al by (simp add: area_frames_def)
      have keep: "mapped s1 v = mapped s v" if "v \<notin> set ?vs" for v using loop that by blast
      have "areas_ok (mapped s1) (data s1) canon (mapping_areas self')"
        unfolding run'(3) set_area_def fs(4) using ao ix pa fa al fs tr keep
        by simp (rule areas_ok_extend [where vs = ?vs]; simp)
      moreover have "flags_ok (ma_permissions b) \<and> (\<forall>v\<in>set (area_pages b). page_ok v)"
        if "b \<in> set (mapping_areas self')" for b
        using that aok okv pa ix(3) unfolding run'(3) set_area_def by (auto dest!: set_update_subset_insert [THEN subsetD])
      ultimately have "space_inv base data mapped page_ok flags_ok canon (self', s')"
        using loop run'(2) by (auto simp: space_inv_def)
      moreover have "mapped s' v = mapped s v" if "v < pr_end (ma_range a) \<or> new \<le> v" for v
        using keep [of v] that vs run'(2) by (metis (no_types, lifting) leD mem_Collect_eq)
      ultimately show ?thesis
        using run' loop by (auto simp: set_area_def intro!: exI [of _ al'])
    next
      case (Err e)
      then show ?thesis using loop by auto
    next
      case Panic
      then obtain self2 where "brk_loop M F i ?vs (self, s) = (Panic, self2, s1)" using bl by auto
      then have "res = Panic" "s' = s1" using run unfolding inc by auto
      then show ?thesis using loop Panic vs by auto
    qed
  qed
qed

end

section \<open>The page tables of the two architectures as memory management units\<close>

definition native_immu :: "pt_arch \<Rightarrow> frame_allocator pt_state immu" where
  "native_immu A = \<lparr>
     im_map_single = map_single A alloc_frame,
     im_unmap_single = unmap_single A,
     im_read_bytes = (\<lambda>va len (self, m). read_bytes A self (phys m) va len),
     im_write_bytes = (\<lambda>va buf (self, m).
       let (r, mem) = write_bytes A self (phys m) va buf in (r, self, m\<lparr>phys := mem\<rparr>))\<rparr>"

definition native_frames :: "frame_allocator pt_state iframe_allocator" where
  "native_frames = \<lparr>
     ia_alloc_frame = (\<lambda>(self, m). do {
       (r, fa) \<leftarrow> alloc_frame (frame_alloc m); Some (r, self, m\<lparr>frame_alloc := fa\<rparr>) }),
     ia_dealloc = (\<lambda>(self, m) f. do {
       fa \<leftarrow> dealloc (frame_alloc m) f; Some (self, m\<lparr>frame_alloc := fa\<rparr>) })\<rparr>"

text \<open>The contract's view of a page table: the invariant without the clean free frames, the frames
  handed out that hold no table, and the pages of 4 KiB that are present.\<close>

definition native_base :: "pt_arch \<Rightarrow> frame_allocator pt_state \<Rightarrow> bool" where
  "native_base A = (\<lambda>(self, m).
     fa_inv (frame_alloc m) \<and>
     (\<forall>f\<in>fa_frames (frame_alloc m). is_page_aligned f \<and> f \<noteq> 0 \<and> unat f < 2 ^ PA_MAX_BITS A) \<and>
     allocation self \<noteq> None \<and> distinct (owned_list self) \<and> owned self \<subseteq> allocated (frame_alloc m) \<and>
     pt_tree A (phys m) (pt_root self) (owned self))"

definition native_clean :: "frame_allocator pt_state \<Rightarrow> bool" where
  "native_clean = (\<lambda>(self, m). clean (phys m) (fa_frames (frame_alloc m) - allocated (frame_alloc m)))"

definition native_exhausted :: "frame_allocator pt_state \<Rightarrow> bool" where
  "native_exhausted = (\<lambda>(self, m). allocated (frame_alloc m) = fa_frames (frame_alloc m))"

definition native_data :: "frame_allocator pt_state \<Rightarrow> usize set" where
  "native_data = (\<lambda>(self, m). allocated (frame_alloc m) - owned self)"

definition native_page_ok :: "pt_arch \<Rightarrow> usize \<Rightarrow> bool" where
  "native_page_ok A v \<longleftrightarrow> unat v < 2 ^ (9 * LEVELS A)"

definition native_mapped :: "pt_arch \<Rightarrow> frame_allocator pt_state \<Rightarrow> usize \<Rightarrow> (usize \<times> usize) option" where
  "native_mapped A = (\<lambda>(self, m) v.
     if \<not> native_page_ok A v then None
     else (case lookup A (phys m) (pt_root self) (indices A (v * 4096)) of
             Ok (e, l) \<Rightarrow> if l = 1 \<and> is_present A e then Some (pte_paddr A e, pte_flags A e) else None
           | _ \<Rightarrow> None))"

definition native_open :: "pt_arch \<Rightarrow> frame_allocator pt_state \<Rightarrow> usize \<Rightarrow> bool" where
  "native_open A = (\<lambda>(self, m) v. native_page_ok A v \<and> page_open A self (phys m) (v * 4096))"

definition native_zero :: "frame_allocator pt_state \<Rightarrow> usize \<Rightarrow> bool" where
  "native_zero = (\<lambda>(self, m) f. \<forall>i<512. phys m (entry_ref f i) = 0)"

lemmas native_defs = native_base_def native_clean_def native_exhausted_def native_data_def
  native_mapped_def native_open_def native_zero_def

lemma native_inv_iff: "native_inv A st \<longleftrightarrow> native_base A st \<and> native_clean st"
  by (cases st) (auto simp: pt_inv_def native_base_def native_clean_def)

lemma arch_levels: "A = sv39 \<or> A = la64 \<Longrightarrow> LEVELS A = 3 \<or> LEVELS A = 4"
  by (auto simp: sv39_def la64_def)

lemma page_ok_unat:
  assumes "A = sv39 \<or> A = la64" and "native_page_ok A v"
  shows "unat v < 68719476736" and "unat (v * 4096) = unat v * 4096"
proof -
  show v: "unat v < 68719476736"
    using assms arch_levels [OF assms(1)] by (auto simp: native_page_ok_def)
  then show "unat (v * 4096) = unat v * 4096" by (simp add: unat_mult_lem [THEN iffD1])
qed

lemma page_region:
  assumes "A = sv39 \<or> A = la64" and "native_page_ok A v"
  shows "region A 1 (v * 4096) = v"
proof -
  have "take_bit (9 * LEVELS A) (unat v) = unat v"
    using assms(2) by (simp add: native_page_ok_def take_bit_nat_eq_self_iff)
  then have tk: "v AND mask (9 * LEVELS A) = v"
    by (metis take_bit_eq_mask unsigned_take_bit_eq word_unat_eq_iff)
  have "unat (drop_bit 12 (v * 4096)) = unat v"
    using page_ok_unat(2) [OF assms] by (simp add: drop_bit_eq_div unat_div_distrib)
  then have "drop_bit 12 (v * 4096) = v" by (simp add: word_unat_eq_iff)
  then show ?thesis using tk arch_levels [OF assms(1)] by (auto simp: region_def)
qed

lemma page_region_iff:
  "A = sv39 \<or> A = la64 \<Longrightarrow> native_page_ok A v \<Longrightarrow> native_page_ok A w \<Longrightarrow>
   region A 1 (v * 4096) = region A 1 (w * 4096) \<longleftrightarrow> v = w"
  by (metis page_region)

lemma page_aligned: "A = sv39 \<or> A = la64 \<Longrightarrow> native_page_ok A v \<Longrightarrow> is_page_aligned (v * 4096)"
  using page_ok_unat(2) [of A v]
  by (simp add: is_page_aligned_def is_aligned_def PAGE_SIZE_def word_unat_eq_iff unat_mod_distrib)

lemma native_start_addr: "A = sv39 \<or> A = la64 \<Longrightarrow> native_page_ok A v \<Longrightarrow> start_addr v = Some (v * 4096)"
  using page_ok_unat(1) [of A v] by (simp add: start_addr_def umul_def PAGE_SIZE_def)

lemma native_alloc:
  assumes "A = sv39 \<or> A = la64" and "native_base A s" and "native_clean s"
  shows "\<exists>x s'. ia_alloc_frame native_frames s = Some (x, s') \<and>
      (case x of None \<Rightarrow> s' = s \<and> native_exhausted s
       | Some f \<Rightarrow> native_base A s' \<and> native_clean s' \<and> f \<notin> native_data s \<and> native_data s' = insert f (native_data s)
           \<and> native_mapped A s' = native_mapped A s \<and> native_open A s' = native_open A s \<and> native_zero s' = native_zero s)"
proof -
  obtain self m where s: "s = (self, m)" by (cases s)
  have fa: "fa_inv (frame_alloc m)" using assms(2) by (simp add: s native_base_def)
  obtain x fa' where x: "alloc_frame (frame_alloc m) = Some (x, fa')" using fa.alloc_total [OF fa] by blast
  note i = fa.alloc_invar [OF fa x]
  have run: "ia_alloc_frame native_frames s = Some (x, self, m\<lparr>frame_alloc := fa'\<rparr>)"
    using x by (simp add: s native_frames_def)
  show ?thesis
  proof (cases x)
    case None
    then show ?thesis using run fa.alloc_exhausted [OF fa, of fa'] x by (simp add: s native_exhausted_def)
  next
    case (Some f)
    have f: "f \<in> fa_frames (frame_alloc m)" "f \<notin> allocated (frame_alloc m)"
        "allocated fa' = insert f (allocated (frame_alloc m))"
      using fa.alloc_fresh [OF fa, of f fa'] x Some by auto
    have own: "owned self \<subseteq> allocated (frame_alloc m)" using assms(2) by (simp add: s native_base_def)
    have "native_base A (self, m\<lparr>frame_alloc := fa'\<rparr>)" "native_clean (self, m\<lparr>frame_alloc := fa'\<rparr>)"
      using assms(2,3) i f by (auto simp: s native_base_def native_clean_def clean_def)
    then show ?thesis
      using run Some f own by (auto simp: s native_data_def native_mapped_def native_open_def native_zero_def)
  qed
qed

lemma native_free:
  assumes "native_base A s" and "f \<in> native_data s"
  shows "\<exists>s'. ia_dealloc native_frames s f = Some s' \<and> native_base A s' \<and> native_data s' = native_data s - {f}
      \<and> native_mapped A s' = native_mapped A s \<and> native_open A s' = native_open A s \<and> native_zero s' = native_zero s
      \<and> (native_clean s \<longrightarrow> native_zero s f \<longrightarrow> native_clean s')"
proof -
  obtain self m where s: "s = (self, m)" by (cases s)
  have fa: "fa_inv (frame_alloc m)" using assms(1) by (simp add: s native_base_def)
  have f: "f \<in> allocated (frame_alloc m)" "f \<notin> owned self" using assms(2) by (auto simp: s native_data_def)
  obtain fa' where d: "dealloc (frame_alloc m) f = Some fa'" "fa_inv fa'"
      "allocated fa' = allocated (frame_alloc m) - {f}" "fa_frames fa' = fa_frames (frame_alloc m)"
    using fa.free_held [OF fa f(1)] by blast
  have "ia_dealloc native_frames s f = Some (self, m\<lparr>frame_alloc := fa'\<rparr>)"
    using d(1) by (simp add: s native_frames_def)
  moreover have "native_base A (self, m\<lparr>frame_alloc := fa'\<rparr>)"
    using assms(1) d f(2) by (auto simp: s native_base_def)
  moreover have "native_clean (self, m\<lparr>frame_alloc := fa'\<rparr>)" if "native_clean s" "native_zero s f"
    using that d by (auto simp: s native_clean_def native_zero_def clean_def)
  ultimately show ?thesis
    using d by (auto simp: s native_data_def native_mapped_def native_open_def native_zero_def)
qed

lemma data_frame_kept:
  assumes "native_base A (self, m)" and "g \<in> native_data (self, m)"
    and "\<forall>s. s \<notin> \<Union>(cells ` own) \<longrightarrow> mem' s = phys m s" and "g \<notin> own" and "own \<subseteq> {f. is_page_aligned f}"
  shows "\<forall>i<512. mem' (entry_ref g i) = phys m (entry_ref g i)"
proof (intro allI impI)
  fix i :: usize assume i: "i < 512"
  have ga: "is_page_aligned g"
    using assms(1,2) fa.held_frames [of "frame_alloc m"] by (auto simp: native_data_def native_base_def)
  have "entry_ref g i \<notin> cells h" if "h \<in> own" for h
    using entry_ref_inj [OF ga _ i] assms(4,5) that by (auto simp: cells_def)
  then show "mem' (entry_ref g i) = phys m (entry_ref g i)" using assms(3) by blast
qed

lemma native_map:
  assumes A: "A = sv39 \<or> A = la64" and b: "native_base A s" "native_clean s" and v: "native_page_ok A v"
    and fl: "fl \<noteq> 0" and f: "f \<in> native_data s"
    and run: "im_map_single (native_immu A) (v * 4096) f PS_4K fl s = (r, s')"
  shows "native_base A s' \<and> native_clean s' \<and> native_data s' = native_data s
      \<and> native_mapped A s' = (if r = Ok () then (native_mapped A s)(v \<mapsto> (f, arch_canon A fl)) else native_mapped A s)
      \<and> (r = Ok () \<longrightarrow> native_mapped A s v = None) \<and> (native_open A s v \<longrightarrow> r = Ok () \<or> native_exhausted s')
      \<and> (\<forall>v'. native_open A s v' \<longrightarrow> v' = v \<or> native_open A s' v') \<and> (\<forall>g\<in>native_data s. native_zero s' g = native_zero s g)"
proof -
  obtain self m self' m' where s: "s = (self, m)" "s' = (self', m')" by (cases s, cases s')
  note p = native_paging [OF A]
  have inv: "native_inv A (self, m)" using b native_inv_iff s by blast
  have run: "map_single A alloc_frame (v * 4096) f PS_4K fl (self, m) = (r, self', m')"
    using run by (simp add: s native_immu_def)
  have al: "f \<in> fa_frames (frame_alloc m)"
    using f b(1) fa.held_frames [of "frame_alloc m"] by (auto simp: s native_data_def native_base_def)
  then have fok: "is_page_aligned f" "unat f < 2 ^ PA_MAX_BITS A" using b(1) by (auto simp: s native_base_def)
  note spec = paging.map_single_spec [OF p inv run fok(2) fl _ refl]
  note prog = paging.map_single_progress [OF p inv run page_aligned [OF A v] fok(1) fl]
  note look = paging.map_single_lookup [OF p inv run fok(1)]
  have inv': "native_inv A (self', m')" and pan: "r \<noteq> Panic" using spec by auto
  have own: "owned self' \<inter> allocated (frame_alloc m) = owned self"
      "allocated (frame_alloc m') = allocated (frame_alloc m) \<union> owned self'"
      "\<forall>s. s \<notin> \<Union>(cells ` owned self') \<longrightarrow> phys m' s = phys m s" using prog by auto
  then have data: "native_data s' = native_data s" unfolding s native_data_def prod.case by blast
  have same: "native_mapped A s' w = native_mapped A s w" if "w \<noteq> v \<or> r \<noteq> Ok ()" for w
  proof (cases "native_page_ok A w")
    case True
    then have "region A 1 (w * 4096) \<noteq> region A 1 (v * 4096) \<or> r \<noteq> Ok ()"
      using that page_region_iff [OF A _ v] by blast
    from look [OF this] show ?thesis by (simp add: s native_mapped_def)
  qed (simp add: s native_mapped_def)
  have new: "native_mapped A s' v = Some (f, arch_canon A fl)" "native_mapped A s v = None" if "r = Ok ()"
  proof -
    have l: "lookup A (phys m') (pt_root self') (indices A (v * 4096)) = Ok (new_page A f fl False, 1)"
      using spec [of "v * 4096"] that by auto
    show "native_mapped A s' v = Some (f, arch_canon A fl)"
      using l v fok fl page_table_entry.page_present [OF paging.axioms(1) [OF p]]
        page_table_entry.page_paddr [OF paging.axioms(1) [OF p] fok]
        page_table_entry.page_flags [OF paging.axioms(1) [OF p]]
      by (simp add: s native_mapped_def)
    have "query_virtual A self (phys m) (v * 4096) = Err NotMapped" using spec [of "v * 4096"] that by simp
    then show "native_mapped A s v = None"
      unfolding paging.query_translation [OF p inv]
      by (auto simp: s native_mapped_def outcome_simps split: outcome.splits)
  qed
  have op: "native_open A s' w" if "native_open A s w" "w \<noteq> v" for w
  proof -
    have "region A 1 (w * 4096) \<noteq> region A 1 (v * 4096)"
      using that page_region_iff [OF A _ v, of w] by (auto simp: s native_open_def)
    then show ?thesis using that(1) prog by (auto simp: s native_open_def)
  qed
  have suc: "r = Ok () \<or> native_exhausted s'" if "native_open A s v"
    using that prog spec by (auto simp: s native_open_def native_exhausted_def)
  have zero: "native_zero s' g = native_zero s g" if g: "g \<in> native_data s" for g
  proof -
    have "g \<in> native_data s'" using g data by simp
    then have "g \<notin> owned self'" by (simp add: s native_data_def)
    from data_frame_kept [OF b(1) [unfolded s] g [unfolded s] own(3) this native_owned_aligned [OF inv']]
    show ?thesis by (simp add: s native_zero_def)
  qed
  have map: "native_mapped A s' = (if r = Ok () then (native_mapped A s)(v \<mapsto> (f, arch_canon A fl)) else native_mapped A s)"
    using same new(1) by (auto simp: fun_eq_iff)
  show ?thesis using inv' data map new(2) op suc zero s native_inv_iff by auto
qed

text \<open>Unmapping does not look at the allocator, so it can be studied with every frame handed out, where
  the free frames are trivially clean.\<close>

lemma unmap_single_allocator:
  "unmap_single A va (self, m\<lparr>frame_alloc := x\<rparr>) =
     (let (r, self', m') = unmap_single A va (self, m) in (r, self', m'\<lparr>frame_alloc := x\<rparr>))"
  by (cases "get_entry_mut A self (phys m) va") (auto simp: unmap_single_def write_entry_def Let_def)

definition drained :: "frame_allocator \<Rightarrow> frame_allocator" where
  "drained fa = fa\<lparr>current := fa_top fa, recycled := []\<rparr>"

lemma drained: "fa_inv fa \<Longrightarrow> fa_inv (drained fa) \<and> allocated (drained fa) = fa_frames fa \<and> fa_frames (drained fa) = fa_frames fa"
  by (auto simp: drained_def fa_inv_def allocated_def fa_frames_def)

lemma native_unmap:
  assumes A: "A = sv39 \<or> A = la64" and b: "native_base A s" and v: "native_page_ok A v"
    and mv: "native_mapped A s v = Some (f, fl)"
  shows "\<exists>s'. im_unmap_single (native_immu A) (v * 4096) s = (Ok (f, PS_4K), s') \<and> native_base A s'
      \<and> (native_clean s \<longrightarrow> native_clean s') \<and> native_data s' = native_data s
      \<and> native_mapped A s' = (native_mapped A s)(v := None) \<and> native_open A s' v
      \<and> (\<forall>v'. native_open A s v' \<longrightarrow> native_open A s' v') \<and> (\<forall>g\<in>native_data s. native_zero s' g = native_zero s g)"
proof -
  obtain self m where s: "s = (self, m)" by (cases s)
  let ?d = "drained (frame_alloc m)" and ?va = "v * 4096"
  note p = native_paging [OF A] and dr = drained [of "frame_alloc m"]
  obtain r self2 m2 where u: "unmap_single A ?va (self, m) = (r, self2, m2)" by (metis surj_pair)
  then have run: "unmap_single A ?va (self, m\<lparr>frame_alloc := ?d\<rparr>) = (r, self2, m2\<lparr>frame_alloc := ?d\<rparr>)"
    by (simp add: unmap_single_allocator)
  have inv: "native_inv A (self, m\<lparr>frame_alloc := ?d\<rparr>)"
    using b dr fa.held_frames [of "frame_alloc m"] by (auto simp: s native_base_def pt_inv_def clean_def)
  obtain e where e: "lookup A (phys m) (pt_root self) (indices A ?va) = Ok (e, 1)" "is_present A e"
      "f = pte_paddr A e" "fl = pte_flags A e"
    using mv v by (auto simp: s native_mapped_def split: outcome.splits if_splits)
  then have l: "lookup A (phys (m\<lparr>frame_alloc := ?d\<rparr>)) (pt_root self) (indices A ?va) = Ok (e, 1)" by simp
  note spec = paging.unmap_single_spec [OF p inv l run, of ?va]
    and look = paging.unmap_single_lookup [OF p inv l run]
  have st: "self2 = self" "r = Ok (f, PS_4K)" using spec e by simp_all
  note prog = paging.unmap_single_progress [OF p inv l run]
  have fm: "frame_alloc m2 = frame_alloc m"
    using u by (cases "get_entry_mut A self (phys m) ?va")
      (auto simp: unmap_single_def write_entry_def Let_def split: if_splits prod.splits)
  have cells: "\<forall>s. s \<notin> \<Union>(cells ` owned self) \<longrightarrow> phys m2 s = phys m s" using prog by simp
  have base: "native_base A (self, m2)"
    using b spec st fm by (auto simp: s native_base_def pt_inv_def)
  have data: "native_data (self, m2) = native_data s" using fm by (simp add: s native_data_def)
  have own: "owned self \<subseteq> {f. is_page_aligned f}" using native_owned_aligned [OF inv] .
  have zero: "native_zero (self, m2) g = native_zero s g" if "g \<in> native_data s" for g
    using data_frame_kept [OF b [unfolded s] that [unfolded s] cells _ own] that
    by (auto simp: s native_zero_def native_data_def)
  have clean: "native_clean (self, m2)" if "native_clean s"
  proof -
    have "phys m2 (entry_ref g i) = phys m (entry_ref g i)"
      if g: "g \<in> fa_frames (frame_alloc m) - allocated (frame_alloc m)" "i < 512" for g i
    proof -
      have ga: "is_page_aligned g" "g \<notin> owned self" using g b by (auto simp: s native_base_def)
      have "entry_ref g i \<notin> cells h" if "h \<in> owned self" for h
        using entry_ref_inj [OF ga(1) _ g(2)] ga(2) own that by (auto simp: cells_def)
      then show ?thesis using cells by blast
    qed
    then show ?thesis using that fm by (simp add: s native_clean_def clean_def)
  qed
  have map: "native_mapped A (self, m2) = (native_mapped A s)(v := None)"
  proof
    fix w
    show "native_mapped A (self, m2) w = ((native_mapped A s)(v := None)) w"
      using look [of "w * 4096"] page_region_iff [OF A _ v, of w] by (auto simp: s native_mapped_def)
  qed
  have op: "native_open A (self, m2) w \<longleftrightarrow> native_page_ok A w \<and> (w = v \<or> native_open A s w)" for w
    using prog [of "w * 4096"] page_region_iff [OF A _ v, of w] v by (auto simp: s native_open_def)
  have "im_unmap_single (native_immu A) ?va s = (Ok (f, PS_4K), self, m2)"
    using u st by (simp add: s native_immu_def)
  moreover have "\<forall>w. native_open A s w \<longrightarrow> native_page_ok A w" by (auto simp: s native_open_def)
  ultimately show ?thesis using base clean data map op v zero by blast
qed

lemma native_address_space:
  assumes "A = sv39 \<or> A = la64"
  shows "address_space (native_immu A) native_frames (native_base A) native_clean native_exhausted native_data
    (native_mapped A) (native_open A) native_zero (native_page_ok A) (\<lambda>fl. fl \<noteq> 0) (arch_canon A)"
  by (unfold_locales, rule native_start_addr [OF assms], assumption, rule native_alloc [OF assms], assumption+,
      rule native_map [OF assms], assumption+, rule native_unmap [OF assms], assumption+, rule native_free, assumption+)

interpretation sv39_space: address_space "native_immu sv39" native_frames "native_base sv39" native_clean native_exhausted
    native_data "native_mapped sv39" "native_open sv39" native_zero "native_page_ok sv39" "\<lambda>fl. fl \<noteq> 0" "arch_canon sv39"
  by (rule native_address_space) simp

interpretation la64_space: address_space "native_immu la64" native_frames "native_base la64" native_clean native_exhausted
    native_data "native_mapped la64" "native_open la64" native_zero "native_page_ok la64" "\<lambda>fl. fl \<noteq> 0" "arch_canon la64"
  by (rule native_address_space) simp

abbreviation native_space :: "pt_arch \<Rightarrow> frame_allocator pt_state ms_state \<Rightarrow> bool" where
  "native_space A \<equiv> space_inv (native_base A) native_data (native_mapped A) (native_page_ok A) (\<lambda>fl. fl \<noteq> 0) (arch_canon A)"

text \<open>A mapped page is one whose addresses the page table translates.\<close>

lemma native_mapped_query:
  assumes A: "A = sv39 \<or> A = la64" and inv: "native_inv A (self, m)"
    and mv: "native_mapped A (self, m) v = Some (f, fl)" and va: "region A 1 va = v"
  shows "query_virtual A self (phys m) va = Ok (f OR (va AND 4095), fl, PS_4K)"
proof -
  note p = native_paging [OF A]
  have v: "native_page_ok A v" using mv by (auto simp: native_mapped_def split: if_splits)
  obtain e where e: "lookup A (phys m) (pt_root self) (indices A (v * 4096)) = Ok (e, 1)"
      "f = pte_paddr A e" "fl = pte_flags A e"
    using mv by (auto simp: native_mapped_def split: outcome.splits if_splits)
  have "region A 1 va = region A 1 (v * 4096)" using page_region [OF A v] va by simp
  then have "prefix (target_path A va PS_4K) (indices A (v * 4096))" "target_path A va PS_4K = indices A va"
    using target_path_region [OF arch_levels [OF A], of va PS_4K "v * 4096"] length_indices [OF arch_levels [OF A], of va]
      arch_levels [OF A]
    by (auto simp: target_path_def)
  then have "indices A (v * 4096) = indices A va"
    using length_indices [OF arch_levels [OF A]] by (metis append_eq_conv_conj prefix_def take_all_iff order_refl)
  then show ?thesis
    using e paging.query_translation [OF p inv, of va] by (simp add: translation_def)
qed

lemma new_space:
  "A = sv39 \<or> A = la64 \<Longrightarrow> native_inv A st \<Longrightarrow> native_space A (ms_new, st) \<and> native_clean st"
  by (simp add: native_inv_iff space_inv_def ms_new_def areas_ok_def)

definition small_area :: mapping_area where
  "small_area = mapping_area_new \<lparr>pr_start = 1, pr_end = 2\<rparr> UserStack Framed (Readable OR User) None"

lemma pages_1_2: "iter_items 2 1 = [1]"
  by (simp add: iter_items_less iter_items_ge)

lemma small_run:
  "fst (alloc_and_map_area (native_immu sv39) native_frames small_area (ms_new, boot_table)) = Ok ()"
  by (simp add: alloc_and_map_area_def small_area_def mapping_area_new_def pr_iter_def pages_1_2 native_immu_def
      native_frames_def create_empty_area_allocation_def start_addr_def umul_def boot_table_eq run_simps)

text \<open>None of the loops reports an error of its own.\<close>

lemma sunwrap_not_Err: "fst (sunwrap x) \<noteq> Err e"
  by (cases x rule: sunwrap.cases) simp_all

lemma alloc_map_loop_not_Err: "fst (alloc_map_loop M F p vpns al s) \<noteq> Err e"
proof (induction vpns arbitrary: al s)
  case (Cons v vpns)
  have "fst (sbind (sunwrap x) (\<lambda>_ s. alloc_map_loop M F p vpns al s)) \<noteq> Err e" for x :: "(unit, PagingError) outcome \<times> 'a" and al
    using Cons.IH by (cases x rule: sunwrap.cases) auto
  then show ?case by (auto split: option.splits)
qed simp

lemma copy_loop_not_Err: "fst (copy_loop Mt M vpns s) \<noteq> Err e"
proof (induction vpns arbitrary: s)
  case (Cons v vpns)
  have "fst (sbind (sunwrap x) (\<lambda>_ s. copy_loop Mt M vpns s)) \<noteq> Err e" for x :: "(unit, MMUError) outcome \<times> 'a"
    using Cons.IH by (cases x rule: sunwrap.cases) auto
  then show ?case by (auto split: option.splits outcome.splits prod.splits)
qed simp

lemma alloc_and_map_keeps:
  assumes "alloc_and_map_area M F area (self, s) = (r, self', s')"
  shows "(\<forall>e. r \<noteq> Err e) \<and> attr_cell self' = attr_cell self"
proof -
  obtain r1 s1 where l: "alloc_map_loop M F (ma_permissions area) (pr_iter (ma_range area)) create_empty_area_allocation s = (r1, s1)"
    by (metis surj_pair)
  then have "\<forall>e. r1 \<noteq> Err e" using alloc_map_loop_not_Err by (metis fst_conv)
  then show ?thesis using assms l by (cases r1) (auto simp: alloc_and_map_area_def split: if_splits)
qed

lemma clone_loop_keeps:
  "clone_loop Mt M F areas (self, s) = (r, self', s') \<Longrightarrow> (\<forall>e. r \<noteq> Err e) \<and> attr_cell self' = attr_cell self"
proof (induction areas arbitrary: self s)
  case (Cons a areas)
  obtain r1 self1 s1 where m: "alloc_and_map_area M F (mapping_area_clone_from a) (self, s) = (r1, self1, s1)"
    by (metis surj_pair)
  obtain r2 s2 where c: "copy_loop Mt M (pr_iter (ma_range a)) s1 = (r2, s2)" by (metis surj_pair)
  have "\<forall>e. r2 \<noteq> Err e" using copy_loop_not_Err [of Mt M "pr_iter (ma_range a)" s1] c by simp
  then show ?case
    using Cons.IH [of self1 s2] Cons.prems alloc_and_map_keeps [OF m] m c
    by (cases r1; cases r2) auto
qed auto

section \<open>Properties\<close>

text \<open>C2: mapping an area gives every page of it a frame of its own that nobody held, with the
  permissions of the area, keeps every other page and the invariant of the address space (no page and
  no frame in two areas), and panics only when the frames ran out or a page of the area could not be
  mapped.\<close>

theorem alloc_and_map_area_correct:
  assumes "A = sv39 \<or> A = la64" and "native_space A (self, st)" and "native_clean st"
    and "ma_allocation area = None" and "\<forall>v\<in>set (area_pages area). native_page_ok A v" and "ma_permissions area \<noteq> 0"
    and "alloc_and_map_area (native_immu A) native_frames area (self, st) = (r, self', st')"
  shows "(r = Ok () \<or> r = Panic)
    \<and> ((\<forall>v\<in>set (area_pages area). native_open A st v) \<longrightarrow> r = Panic \<longrightarrow> native_exhausted st')
    \<and> (\<forall>v. v \<notin> set (area_pages area) \<longrightarrow> native_mapped A st' v = native_mapped A st v)
    \<and> (r = Ok () \<longrightarrow> native_space A (self', st') \<and> native_clean st'
        \<and> (\<exists>al. mapping_areas self' = mapping_areas self @ [area\<lparr>ma_allocation := Some al\<rparr>])
        \<and> (\<forall>v\<in>set (area_pages area). native_mapped A st v = None \<and> (\<exists>f\<in>native_data st' - native_data st. \<forall>va.
             region A 1 va = v \<longrightarrow> query_virtual A (fst st') (phys (snd st')) va
               = Ok (f OR (va AND 4095), arch_canon A (ma_permissions area), PS_4K))))"
proof -
  note spec = address_space.alloc_and_map_area_spec [OF native_address_space [OF assms(1)] assms(2-7)]
  note success = spec [THEN conjunct2, THEN conjunct2, THEN conjunct2, THEN conjunct2, THEN conjunct2, THEN conjunct2, THEN mp]
  have "\<exists>f\<in>native_data st' - native_data st. \<forall>va. region A 1 va = v \<longrightarrow> query_virtual A (fst st') (phys (snd st')) va
      = Ok (f OR (va AND 4095), arch_canon A (ma_permissions area), PS_4K)" if ok: "r = Ok ()" and v: "v \<in> set (area_pages area)" for v
  proof -
    obtain al where al: "mapping_areas self' = mapping_areas self @ [area\<lparr>ma_allocation := Some al\<rparr>]"
        "native_data st' = native_data st \<union> snd ` set (maa_frames al)" "snd ` set (maa_frames al) \<inter> native_data st = {}"
      and inv: "native_space A (self', st')"
      using success [OF ok] by (elim conjE exE)
    have cl: "native_clean st'" using spec [THEN conjunct2, THEN conjunct1] .
    let ?a = "area\<lparr>ma_allocation := Some al\<rparr>"
    have ao: "area_ok (native_mapped A st') (native_data st') (arch_canon A) ?a"
      using inv al(1) by (auto simp: space_inv_def areas_ok_def)
    then have "map fst (maa_frames al) = area_pages area" by (simp add: area_ok_def area_frames_def area_pages_def)
    then have "v \<in> fst ` set (maa_frames al)" using v by (metis list.set_map)
    then obtain f where f: "(v, f) \<in> set (maa_frames al)" by auto
    then have "native_mapped A st' v = Some (f, arch_canon A (ma_permissions area))"
      using ao by (auto simp: area_ok_def area_frames_def)
    moreover have "native_inv A (fst st', snd st')" using inv cl by (simp add: native_inv_iff space_inv_def)
    ultimately have "\<forall>va. region A 1 va = v \<longrightarrow> query_virtual A (fst st') (phys (snd st')) va
        = Ok (f OR (va AND 4095), arch_canon A (ma_permissions area), PS_4K)"
      using native_mapped_query [OF assms(1), of "fst st'" "snd st'"] by simp
    moreover have "f \<in> native_data st' - native_data st" using f al(2,3) by force
    ultimately show ?thesis by blast
  qed
  moreover have "\<exists>al. mapping_areas self' = mapping_areas self @ [area\<lparr>ma_allocation := Some al\<rparr>]" if "r = Ok ()"
    using success [OF that] by (elim conjE exE) (rule exI)
  ultimately show ?thesis
    using spec [THEN conjunct1] spec [THEN conjunct2, THEN conjunct1]
      spec [THEN conjunct2, THEN conjunct2, THEN conjunct2, THEN conjunct1]
      spec [THEN conjunct2, THEN conjunct2, THEN conjunct2, THEN conjunct2, THEN conjunct1]
      success [THEN conjunct1] success [THEN conjunct2, THEN conjunct1]
    by (intro conjI impI ballI) simp_all
qed

theorem alloc_and_map_area_correct_witness:
  "\<exists>self st. alloc_and_map_area (native_immu sv39) native_frames small_area (ms_new, boot_table) = (Ok (), self, st)
    \<and> native_space sv39 (self, st) \<and> native_mapped sv39 boot_table 1 = None"
proof -
  obtain self st where run:
    "alloc_and_map_area (native_immu sv39) native_frames small_area (ms_new, boot_table) = (Ok (), self, st)"
    using small_run by (metis prod.collapse)
  have pg: "area_pages small_area = [1]"
    by (simp add: small_area_def mapping_area_new_def area_pages_def pr_iter_def pages_1_2)
  have "native_space sv39 (self, st) \<and> native_mapped sv39 boot_table 1 = None"
    using alloc_and_map_area_correct [OF _ _ _ _ _ _ run] new_space [of sv39 boot_table] boot_inv(1) [of sv39]
    unfolding pg by (simp add: small_area_def mapping_area_new_def native_page_ok_def sv39_def gm_defs)
  with run show ?thesis by blast
qed

text \<open>C8: unmapping the areas a predicate selects always ends and succeeds; it removes exactly those
  areas, unmaps exactly their pages and returns exactly their frames.\<close>

theorem unmap_all_areas_that_correct:
  assumes "A = sv39 \<or> A = la64" and "native_space A (self, st)"
  shows "\<exists>st'. unmap_all_areas_that (native_immu A) native_frames P (self, st)
      = (Ok (), self\<lparr>mapping_areas := filter (\<lambda>a. \<not> P a) (mapping_areas self)\<rparr>, st')
    \<and> native_space A (self\<lparr>mapping_areas := filter (\<lambda>a. \<not> P a) (mapping_areas self)\<rparr>, st')
    \<and> native_data st' = native_data st - (\<Union>a\<in>{a \<in> set (mapping_areas self). P a}. snd ` set (area_frames a))
    \<and> native_mapped A st' = (\<lambda>v. if \<exists>a\<in>set (mapping_areas self). P a \<and> v \<in> set (area_pages a) then None
                                else native_mapped A st v)"
  by (rule address_space.unmap_all_areas_that_spec [OF native_address_space [OF assms(1)] assms(2)])

theorem unmap_all_areas_that_correct_witness:
  "\<exists>self st st'. alloc_and_map_area (native_immu sv39) native_frames small_area (ms_new, boot_table) = (Ok (), self, st)
    \<and> unmap_all_areas_that (native_immu sv39) native_frames (\<lambda>_. True) (self, st) = (Ok (), self\<lparr>mapping_areas := []\<rparr>, st')"
proof -
  obtain self st where run:
    "alloc_and_map_area (native_immu sv39) native_frames small_area (ms_new, boot_table) = (Ok (), self, st)"
    using small_run by (metis prod.collapse)
  have "native_space sv39 (self, st)"
    using sv39_space.alloc_and_map_area_spec [OF _ _ _ _ _ run] new_space [of sv39 boot_table] boot_inv(1) [of sv39]
    by (simp add: small_area_def mapping_area_new_def area_pages_def pr_iter_def pages_1_2 native_page_ok_def sv39_def gm_defs)
  then show ?thesis using unmap_all_areas_that_correct [of sv39 self st "\<lambda>_. True"] run by auto
qed

text \<open>C40: \<^verbatim>\<open>clone_existing\<close> never returns: the attribute cell of the copy is still empty when the
  attributes are copied into it, and the unwrap panics.\<close>

theorem clone_existing_panics: "fst (clone_existing Mt Ft them M F s) = Panic"
proof -
  obtain r this s' where l: "clone_loop Mt M (case F of Some F \<Rightarrow> F | None \<Rightarrow> Ft) (mapping_areas them) (ms_new, s) = (r, this, s')"
    by (metis surj_pair)
  have "attr_cell ms_new = None" by (simp add: ms_new_def)
  then show ?thesis using clone_loop_keeps [OF l] by (cases r) (auto simp: clone_existing_def l)
qed

text \<open>A space with one area, which is the break.\<close>

definition brk_space :: memory_space where
  "brk_space = \<lparr>mapping_areas = [], attr_cell = Some (attribute_default\<lparr>brk_area_idx_field := 0\<rparr>)\<rparr>"

lemma brk_run:
  "\<exists>self st. alloc_and_map_area (native_immu sv39) native_frames small_area (brk_space, boot_table) = (Ok (), self, st)
    \<and> fst (increase_brk (native_immu sv39) native_frames 3 (self, st)) = Ok ()"
  by (simp add: alloc_and_map_area_def small_area_def mapping_area_new_def pr_iter_def pages_1_2 native_immu_def
      native_frames_def create_empty_area_allocation_def start_addr_def umul_def boot_table_eq run_simps,
    simp add: increase_brk_def brk_area_idx_def ms_attr_def brk_space_def area_at_def attribute_default_def
      diff_page_count_def chk_i64_def in_i64_def i64_of_def pr_from_start_count_def pr_iter_def,
    simp add: run_simps set_area_def pr_from_start_end_def assert_that_def area_at_def start_addr_def umul_def
      pr_iter_def iter_items_less iter_items_ge rv64_is_present_bit rv64_is_huge_bit rv64_paddr_def)



text \<open>The break cannot shrink: asked for an end below the current end and not below the start, the
  negative page count is cast to an unsigned number and the end of the range overflows, which panics.\<close>

theorem increase_brk_shrink_panics:
  assumes "brk_area_idx self = Some i" and "area_at self i = Some a"
    and "pr_start (ma_range a) \<le> new_end" and "new_end < pr_end (ma_range a)" and "unat (pr_end (ma_range a)) < 2 ^ 63"
  shows "increase_brk M F new_end (self, s) = (Panic, self, s)"
proof -
  let ?e = "pr_end (ma_range a)"
  have lt: "unat new_end < unat ?e" using assms(4) by (simp add: word_less_nat_alt)
  then have s: "sint new_end - sint ?e = - int (unat ?e - unat new_end)"
    using sint_small [OF assms(5)] sint_small [of new_end] assms(5) by (simp add: of_nat_diff)
  have "unat ?e - unat new_end < 2 ^ 63" using assms(5) by linarith
  then have "int (unat ?e - unat new_end) < int (2 ^ 63)" by (simp only: of_nat_less_iff)
  moreover have "int (2 ^ 63) = 2 ^ 63" by simp
  ultimately have "in_i64 (sint new_end - sint ?e)" unfolding s in_i64_def by linarith
  then have d: "diff_page_count new_end ?e = Some (i64_of (sint new_end - sint ?e))"
    by (simp add: diff_page_count_def chk_i64_def)
  have c: "i64_of (sint new_end - sint ?e) = new_end - ?e"
    using lt unfolding s i64_of_def by (simp add: of_nat_diff)
  have "unat (new_end - ?e) + unat ?e = unat new_end + 2 ^ 64"
    using lt unat_lt_u64 [of ?e] by (simp add: unat_sub_if_size word_size)
  then have "pr_from_start_count ?e (new_end - ?e) = None"
    by (simp add: pr_from_start_count_def uadd_def)
  moreover have "new_end - ?e \<noteq> 0" using assms(4) by auto
  ultimately show ?thesis
    using assms(1-3) d c by (simp add: increase_brk_def)
qed

theorem increase_brk_shrink_panics_witness:
  "fst (increase_brk (native_immu sv39) native_frames 1
     (brk_space\<lparr>mapping_areas := [small_area]\<rparr>, boot_table)) = Panic"
  using increase_brk_shrink_panics [of "brk_space\<lparr>mapping_areas := [small_area]\<rparr>" 0 small_area 1
      "native_immu sv39" native_frames boot_table]
  by (simp add: brk_area_idx_def ms_attr_def brk_space_def attribute_default_def area_at_def small_area_def mapping_area_new_def)

end
