(* ===== verification/Errno.thy ===== *)
theory Errno
  imports Prelude
begin

text \<open>
  The error codes (libraries/constants/src/errno.rs) that the modelled code returns. \<^verbatim>\<open>ErrNo\<close> has the
  representation \<^verbatim>\<open>isize\<close>, so a code is the word of its negative number, and a \<^verbatim>\<open>SyscallResult\<close> is
  what a system call hands back.
\<close>

type_synonym ErrNo = i64

definition OperationNotPermitted :: ErrNo where "OperationNotPermitted = - 1"
definition NoSuchFileOrDirectory :: ErrNo where "NoSuchFileOrDirectory = - 2"
definition ExecFormatError :: ErrNo where "ExecFormatError = - 8"
definition ResourceTemporarilyUnavailable :: ErrNo where "ResourceTemporarilyUnavailable = - 11"
definition CannotAllocateMemory :: ErrNo where "CannotAllocateMemory = - 12"
definition BadAddress :: ErrNo where "BadAddress = - 14"
definition DeviceOrResourceBusy :: ErrNo where "DeviceOrResourceBusy = - 16"
definition FileExists :: ErrNo where "FileExists = - 17"
definition NotADirectory_errno :: ErrNo where "NotADirectory_errno = - 20"
definition InvalidArgument :: ErrNo where "InvalidArgument = - 22"
definition NoSpaceLeftOnDevice :: ErrNo where "NoSpaceLeftOnDevice = - 28"
definition ReadOnlyFileSystem :: ErrNo where "ReadOnlyFileSystem = - 30"
definition FileNameTooLong :: ErrNo where "FileNameTooLong = - 36"
definition DirectoryNotEmpty_errno :: ErrNo where "DirectoryNotEmpty_errno = - 39"
definition TooManyLevelsOfSymbolicLinks :: ErrNo where "TooManyLevelsOfSymbolicLinks = - 40"

type_synonym SyscallResult = "(i64, ErrNo) outcome"

end
