(* ===== verification/Sys_Mmap.thy ===== *)
theory Sys_Mmap
  imports Memory_Space Errno
begin

text \<open>
  The system call \<^verbatim>\<open>mmap\<close> (linux-syscalls/src/sys_mmap.rs) for anonymous mappings: the checks of the
  arguments, the search for a hole between the areas of the address space, and the mapping of the
  pages through \<^verbatim>\<open>MemorySpace::alloc_and_map_area\<close>. The search is shown to refine a search over page
  numbers, and a mapping of one page to land where no area is.
\<close>

section \<open>Results and flags\<close>

text \<open>The register value of a result.\<close>

fun result_as_usize :: "SyscallResult \<Rightarrow> usize option" where
  "result_as_usize (Ok v) = Some v"
| "result_as_usize (Err e) = Some e"
| "result_as_usize Panic = None"

definition PROT_READ :: u32 where "PROT_READ = 1"
definition PROT_WRITE :: u32 where "PROT_WRITE = 2"
definition PROT_EXECUTE :: u32 where "PROT_EXECUTE = 4"

definition MAP_ANONYMOUS :: u32 where "MAP_ANONYMOUS = 0"
definition MAP_SHARED :: u32 where "MAP_SHARED = 1"
definition MAP_PRIVATE :: u32 where "MAP_PRIVATE = 2"

section \<open>The system call\<close>

definition VMA_MAX_LEN :: usize where "VMA_MAX_LEN = shl 1 36"
definition VMA_MIN_ADDR :: usize where "VMA_MIN_ADDR = 0x1000"
definition VMA_BASE :: usize where "VMA_BASE = 0x10000000"
definition VMA_GAP :: usize where "VMA_GAP = PAGE_SIZE"

definition prot_to_permissions :: "u32 \<Rightarrow> usize" where
  "prot_to_permissions prot =
     (let flags = User;
          flags = (if prot AND PROT_READ = PROT_READ then flags OR Readable else flags);
          flags = (if prot AND PROT_WRITE = PROT_WRITE then flags OR Writable else flags);
          flags = (if prot AND PROT_EXECUTE = PROT_EXECUTE then flags OR Executable else flags)
      in flags)"

text \<open>The loop over the mappings, sorted by their end: the hole it settles on, or none when it ran
  through.\<close>

fun select_loop :: "usize \<Rightarrow> mapping_area list \<Rightarrow> usize \<Rightarrow> usize option option" where
  "select_loop len [] last_hole_start = Some None"
| "select_loop len (mapping # mappings) last_hole_start = do {
     hole_start \<leftarrow> to_ceil_page_num last_hole_start;
     possible_hole \<leftarrow> pr_from_start_count hole_start (len div PAGE_SIZE);
     (if pr_contains (ma_range mapping) (pr_start possible_hole)
         \<or> pr_contains (ma_range mapping) (pr_end possible_hole)
      then do {
        e \<leftarrow> end_addr (pr_end (ma_range mapping));
        h \<leftarrow> addr_add e VMA_GAP;
        select_loop len mappings h
      }
      else do {
        e \<leftarrow> end_addr (pr_end possible_hole);
        g \<leftarrow> addr_add e VMA_GAP;
        s \<leftarrow> start_addr (pr_start (ma_range mapping));
        (if g \<le> s then Some (Some last_hole_start)
         else select_loop len mappings last_hole_start)
      })
   }"

definition sys_mmap_select_addr :: "memory_space \<Rightarrow> usize \<Rightarrow> usize \<Rightarrow> usize option" where
  "sys_mmap_select_addr mem addr len = do {
     _ \<leftarrow> assert_that (len mod PAGE_SIZE = 0);
     let mappings = sort_key (\<lambda>a. pr_end (ma_range a)) (mapping_areas mem);
     (if mappings = [] then Some (if is_null addr then VMA_BASE else addr)
      else do {
        last_hole_start \<leftarrow>
          (if is_null addr then do {
             e \<leftarrow> end_addr (pr_end (ma_range (hd mappings)));
             addr_add e VMA_GAP
           }
           else Some addr);
        found \<leftarrow> select_loop len mappings last_hole_start;
        (case found of
           Some h \<Rightarrow> Some h
         | None \<Rightarrow> do {
             e \<leftarrow> end_addr (pr_end (ma_range (last mappings)));
             addr_add e VMA_GAP
           })
      })
   }"

definition sys_mmap_anonymous ::
  "'s immu \<Rightarrow> 's iframe_allocator \<Rightarrow> usize \<Rightarrow> usize \<Rightarrow> usize \<Rightarrow> usize \<Rightarrow> 's ms_state \<Rightarrow> SyscallResult \<times> 's ms_state" where
  "sys_mmap_anonymous M F addr len permissions offset = (\<lambda>(mem, s).
     if offset \<noteq> 0 then (Err InvalidArgument, mem, s)
     else (case sys_mmap_select_addr mem addr len of
       None \<Rightarrow> (Panic, mem, s)
     | Some addr \<Rightarrow>
         if is_null addr then (Err CannotAllocateMemory, mem, s)
         else (case do { e \<leftarrow> addr_add addr len; e \<leftarrow> to_ceil_page_num e;
                         pr_from_start_end (to_floor_page_num addr) e } of
           None \<Rightarrow> (Panic, mem, s)
         | Some r \<Rightarrow>
             sbind (sunwrap (alloc_and_map_area M F
                 \<lparr>ma_range = r, ma_area_type = VMA, ma_map_type = Framed,
                  ma_permissions = permissions, ma_allocation = None\<rparr> (mem, s)))
               (\<lambda>_ st. (Ok addr, st)))))"

definition sys_mmap ::
  "'s immu \<Rightarrow> 's iframe_allocator \<Rightarrow> usize \<Rightarrow> usize \<Rightarrow> u32 \<Rightarrow> u32 \<Rightarrow> usize \<Rightarrow> usize \<Rightarrow> 's ms_state \<Rightarrow>
   SyscallResult \<times> 's ms_state" where
  "sys_mmap M F addr len prot flags fd offset st =
     (if \<not> is_page_aligned addr \<or> (\<not> is_null addr \<and> addr < VMA_MIN_ADDR) then (Err BadAddress, st)
      else if len = 0 then (Err InvalidArgument, st)
      else (case do { n \<leftarrow> udiv_ceil len PAGE_SIZE; umul n PAGE_SIZE } of
        None \<Rightarrow> (Panic, st)
      | Some len \<Rightarrow>
          if VMA_MAX_LEN < len then (Err CannotAllocateMemory, st)
          else if offset mod PAGE_SIZE \<noteq> 0 then (Err InvalidArgument, st)
          else let permissions = prot_to_permissions prot
            in if flags = MAP_ANONYMOUS then sys_mmap_anonymous M F addr len permissions offset st
               else (Err InvalidArgument, st)))"

section \<open>The search for a hole, over page numbers\<close>

text \<open>The abstract search: mappings as half-open intervals of page numbers.\<close>

fun hole_loop :: "nat \<Rightarrow> (nat \<times> nat) list \<Rightarrow> nat \<Rightarrow> nat option" where
  "hole_loop n [] p = None"
| "hole_loop n ((s, e) # ms) p =
     (if s \<le> p \<and> p < e \<or> s \<le> p + n \<and> p + n < e then hole_loop n ms (e + 2)
      else if p + n + 2 \<le> s then Some p else hole_loop n ms p)"

definition interval :: "mapping_area \<Rightarrow> nat \<times> nat" where
  "interval a = (unat (pr_start (ma_range a)), unat (pr_end (ma_range a)))"

definition find_hole :: "nat \<Rightarrow> (nat \<times> nat) list \<Rightarrow> nat \<Rightarrow> nat" where
  "find_hole n ms p = (case hole_loop n ms p of Some q \<Rightarrow> q | None \<Rightarrow> snd (last ms) + 2)"

text \<open>Page numbers below \<^verbatim>\<open>2 ^ 51\<close> are far from any overflow of their addresses.\<close>

abbreviation page :: "nat \<Rightarrow> usize" where
  "page p \<equiv> of_nat p * 4096"

lemma unat_small: "p < 2 ^ 52 \<Longrightarrow> unat (of_nat p :: usize) = p"
  by (simp add: unsigned_of_nat take_bit_nat_eq_self_iff)

lemma unat_page: "p < 2 ^ 52 \<Longrightarrow> unat (page p) = p * 4096"
  using unat_mult_lem [of "of_nat p :: usize" 4096] by (simp add: unat_small)

lemma page_inv: "p < 2 ^ 52 \<Longrightarrow> page p div 4096 = of_nat p" "p < 2 ^ 52 \<Longrightarrow> page p mod 4096 = 0"
proof -
  assume p: "p < 2 ^ 52"
  have "unat (page p div 4096) = unat (of_nat p :: usize)"
    unfolding unat_div_distrib unat_page [OF p] unat_small [OF p] by simp
  then show "page p div 4096 = of_nat p" by (simp only: word_unat_eq_iff)
  have "unat (page p mod 4096) = 0" unfolding unat_mod_distrib unat_page [OF p] by simp
  then show "page p mod 4096 = 0" by (simp only: unat_eq_0)
qed

lemma page_ceil: "p < 2 ^ 52 \<Longrightarrow> to_ceil_page_num (page p) = Some (of_nat p)"
  unfolding to_ceil_page_num_def udiv_ceil_def PAGE_SIZE_def by (simp only: page_inv) simp

lemma page_add:
  assumes "p + n < 2 ^ 52" shows "addr_add (page p) (page n) = Some (page (p + n))"
proof -
  have "unat (page p) + unat (page n) < 2 ^ LENGTH(64)"
    using assms unat_page [of p] unat_page [of n] by simp
  moreover have "page p + page n = page (p + n)" by (simp add: algebra_simps)
  ultimately show ?thesis unfolding addr_add_def uadd_def by simp
qed

lemma page_start: "unat v < 2 ^ 52 \<Longrightarrow> start_addr v = Some (page (unat v))"
  by (simp add: start_addr_def umul_def PAGE_SIZE_def)

lemma page_end: assumes "unat v + 1 < 2 ^ 52" shows "end_addr v = Some (page (unat v + 1))"
proof -
  have "unat (v + 1) = unat v + 1" using assms unat_add_lem [of v 1] by simp
  then show ?thesis using assms by (simp add: end_addr_def uadd_def umul_def PAGE_SIZE_def)
qed

lemma page_le: "p < 2 ^ 52 \<Longrightarrow> q < 2 ^ 52 \<Longrightarrow> page p \<le> page q \<longleftrightarrow> p \<le> q"
  unfolding word_le_nat_alt by (simp only: unat_page) simp

lemma page_contains: "p < 2 ^ 52 \<Longrightarrow> pr_contains r (of_nat p) \<longleftrightarrow> unat (pr_start r) \<le> p \<and> p < unat (pr_end r)"
  unfolding pr_contains_def word_le_nat_alt word_less_nat_alt by (simp only: unat_small)

lemma page_hole:
  "p + n < 2 ^ 52 \<Longrightarrow> pr_from_start_count (of_nat p) (page n div PAGE_SIZE) = Some \<lparr>pr_start = of_nat p, pr_end = of_nat (p + n)\<rparr>"
  using page_inv(1) [of n] unat_small [of p] unat_small [of n]
  by (simp add: pr_from_start_count_def PAGE_SIZE_def uadd_def)

lemma VMA_GAP_page: "VMA_GAP = page 1"
  by (simp add: VMA_GAP_def PAGE_SIZE_def)

definition in_bounds :: "nat \<Rightarrow> mapping_area list \<Rightarrow> bool" where
  "in_bounds n ms \<longleftrightarrow> (\<forall>a\<in>set ms. fst (interval a) \<le> snd (interval a) \<and> snd (interval a) + n + 6 < 2 ^ 52)"

lemma select_loop_refines:
  "in_bounds n ms \<Longrightarrow> p + n + 4 < 2 ^ 52 \<Longrightarrow>
   select_loop (page n) ms (page p) = Some (map_option (\<lambda>q. page q) (hole_loop n (map interval ms) p))"
proof (induction ms arbitrary: p)
  case (Cons a ms)
  let ?s = "unat (pr_start (ma_range a))" and ?e = "unat (pr_end (ma_range a))"
  have iv: "interval a = (?s, ?e)" by (simp add: interval_def)
  have b: "?s \<le> ?e" "?e + n + 6 < 2 ^ 52" and bs: "in_bounds n ms"
    using Cons.prems(1) by (auto simp: in_bounds_def interval_def)
  have ceil: "to_ceil_page_num (page p) = Some (of_nat p)" using Cons.prems(2) by (intro page_ceil) simp
  have hole: "pr_from_start_count (of_nat p) (page n div PAGE_SIZE) = Some \<lparr>pr_start = of_nat p, pr_end = of_nat (p + n)\<rparr>"
    using Cons.prems(2) by (intro page_hole) simp
  have c: "pr_contains (ma_range a) (of_nat p) \<longleftrightarrow> ?s \<le> p \<and> p < ?e"
      "pr_contains (ma_range a) (of_nat (p + n)) \<longleftrightarrow> ?s \<le> p + n \<and> p + n < ?e"
    using Cons.prems(2) by (intro page_contains; simp)+
  have e: "end_addr (pr_end (ma_range a)) = Some (page (?e + 1))" "addr_add (page (?e + 1)) VMA_GAP = Some (page (?e + 2))"
    using page_end [of "pr_end (ma_range a)"] page_add [of "?e + 1" 1] b unfolding VMA_GAP_page by simp_all
  have u: "unat (of_nat (p + n) :: usize) = p + n" using Cons.prems(2) by (intro unat_small) simp
  have h: "end_addr (of_nat (p + n)) = Some (page (p + n + 1))" "addr_add (page (p + n + 1)) VMA_GAP = Some (page (p + n + 2))"
    using page_end [of "of_nat (p + n)"] page_add [of "p + n + 1" 1] Cons.prems(2) unfolding VMA_GAP_page u by simp_all
  have s: "start_addr (pr_start (ma_range a)) = Some (page ?s)" using b by (intro page_start) simp
  have le: "page (p + n + 2) \<le> page ?s \<longleftrightarrow> p + n + 2 \<le> ?s" using b Cons.prems(2) by (intro page_le) simp_all
  have IH: "p' + n + 4 < 2 ^ 52 \<Longrightarrow> select_loop (page n) ms (page p') = Some (map_option (\<lambda>q. page q) (hole_loop n (map interval ms) p'))" for p'
    using Cons.IH [OF bs] .
  show ?case
  proof (cases "?s \<le> p \<and> p < ?e \<or> ?s \<le> p + n \<and> p + n < ?e")
    case True
    have "select_loop (page n) (a # ms) (page p) = select_loop (page n) ms (page (?e + 2))"
      using True by (simp only: select_loop.simps ceil hole bind.bind_lunit page_range.select_convs c e if_True)
    then show ?thesis using True IH [of "?e + 2"] b unfolding list.map iv by (simp del: select_loop.simps)
  next
    case False
    have "select_loop (page n) (a # ms) (page p) =
        (if p + n + 2 \<le> ?s then Some (Some (page p)) else select_loop (page n) ms (page p))"
      using False by (simp only: select_loop.simps ceil hole bind.bind_lunit page_range.select_convs c h s le if_False)
    then show ?thesis using False IH [of p] Cons.prems(2) unfolding list.map iv by (auto simp del: select_loop.simps)
  qed
qed simp

text \<open>The whole choice, from a null address or from the address that was asked for.\<close>

lemma select_addr_refines:
  assumes b: "in_bounds n (mapping_areas mem)" and ne: "mapping_areas mem \<noteq> []" and q: "q + n + 4 < 2 ^ 52"
    and ms: "ms = sort_key (\<lambda>a. pr_end (ma_range a)) (mapping_areas mem)"
    and n: "n < 2 ^ 52"
  shows "sys_mmap_select_addr mem (page q) (page n) =
    Some (page (find_hole n (map interval ms) (if q = 0 then snd (interval (hd ms)) + 2 else q)))"
proof -
  have "set ms = set (mapping_areas mem)" by (simp add: ms)
  then have bs: "in_bounds n ms" "ms \<noteq> []" using b ne by (auto simp: in_bounds_def)
  then have hd: "hd ms \<in> set ms" "last ms \<in> set ms" by simp_all
  have gap: "end_addr (pr_end (ma_range a)) = Some (page (snd (interval a) + 1))"
      "addr_add (page (snd (interval a) + 1)) VMA_GAP = Some (page (snd (interval a) + 2))" if "a \<in> set ms" for a
    using page_end [of "pr_end (ma_range a)"] page_add [of "snd (interval a) + 1" 1] bs(1) that
    unfolding VMA_GAP_page by (auto simp: in_bounds_def interval_def)
  have al: "page n mod PAGE_SIZE = 0" using page_inv(2) [OF n] by (simp add: PAGE_SIZE_def)
  have null: "is_null (page q) \<longleftrightarrow> q = 0"
    using unat_page [of q] q unfolding is_null_def by (auto simp: unat_eq_0 [symmetric] simp del: unat_eq_0)
  let ?p = "if q = 0 then snd (interval (hd ms)) + 2 else q"
  have p: "?p + n + 4 < 2 ^ 52" using q bs(1) hd by (auto simp: in_bounds_def)
  have first: "(if is_null (page q) then do { e \<leftarrow> end_addr (pr_end (ma_range (hd ms))); addr_add e VMA_GAP } else Some (page q))
      = Some (page ?p)"
    using null gap [OF hd(1)] by simp
  have "sys_mmap_select_addr mem (page q) (page n) = do {
      found \<leftarrow> select_loop (page n) ms (page ?p);
      (case found of Some h \<Rightarrow> Some h
       | None \<Rightarrow> do { e \<leftarrow> end_addr (pr_end (ma_range (last ms))); addr_add e VMA_GAP }) }"
    using bs(2) al first unfolding sys_mmap_select_addr_def Let_def ms [symmetric] by (simp add: assert_that_def)
  then show ?thesis
    unfolding select_loop_refines [OF bs(1) p] using gap [OF hd(2)] bs(2)
    by (auto simp: find_hole_def last_map split: option.splits)
qed

text \<open>A search for one page never ends inside a mapping, when the mappings are apart.\<close>

lemma hole_loop_result:
  "hole_loop n ms p = Some q \<Longrightarrow> q = p \<or> (\<exists>m\<in>set ms. q = snd m + 2)"
  by (induction n ms p rule: hole_loop.induct) (auto split: if_splits)

lemma hole_loop_apart:
  assumes "sorted_wrt (\<lambda>a b. snd a \<le> fst b) ms" and "\<forall>m\<in>set ms. fst m \<le> snd m" and "hole_loop 1 ms p = Some q"
    and "m \<in> set ms"
  shows "\<not> (fst m \<le> q \<and> q < snd m)"
  using assms
proof (induction ms arbitrary: p)
  case (Cons x ms)
  obtain s0 e0 where x: "x = (s0, e0)" by (cases x)
  have late: "e0 \<le> fst b" "fst b \<le> snd b" if "b \<in> set ms" for b
    using Cons.prems(1,2) x that by simp_all
  have res: "q = p' \<or> e0 \<le> q" if run: "hole_loop 1 ms p' = Some q" for p'
  proof -
    consider "q = p'" | b where "b \<in> set ms" "q = snd b + 2" using hole_loop_result [OF run] by blast
    then show ?thesis
    proof cases
      case (2 b)
      then show ?thesis using late [of b] by linarith
    qed simp
  qed
  have IH: "\<not> (fst m \<le> q \<and> q < snd m)" if "hole_loop 1 ms p' = Some q" "m \<in> set ms" for p'
    using Cons.IH [OF _ _ that] Cons.prems(1,2) by simp
  let ?C = "s0 \<le> p \<and> p < e0 \<or> s0 \<le> p + 1 \<and> p + 1 < e0"
  note run = Cons.prems(3) [unfolded x hole_loop.simps]
  show ?case
  proof (cases ?C)
    case True
    then have inside: "hole_loop 1 ms (e0 + 2) = Some q" using run by simp
    have "e0 \<le> q" using res [OF inside] by linarith
    then show ?thesis using IH [OF inside] Cons.prems(4) x by (cases "m = x") simp_all
  next
    case out: False
    show ?thesis
    proof (cases "p + 1 + 2 \<le> s0")
      case True
      then have q: "q = p" using run out by (simp only: if_False if_True option.inject)
      show ?thesis
      proof (cases "m = x")
        case False
        then have m: "m \<in> set ms" using Cons.prems(4) by simp
        have "s0 \<le> e0" using Cons.prems(2) x by simp
        then show ?thesis using late [OF m] q True by linarith
      qed (use q True x in simp)
    next
      case False
      then have skip: "hole_loop 1 ms p = Some q" using run out by (simp only: if_False)
      show ?thesis
      proof (cases "m = x")
        case True
        then show ?thesis using res [OF skip] out x by auto
      qed (use IH [OF skip] Cons.prems(4) in simp)
    qed
  qed
qed simp

lemma last_end:
  assumes "sorted_wrt (\<lambda>a b. snd a \<le> fst b) ms" and "\<forall>m\<in>set ms. fst m \<le> snd m" and "m \<in> set ms"
  shows "snd m \<le> (snd (last ms) :: nat)"
  using assms
proof (induction ms)
  case (Cons x ms)
  show ?case
  proof (cases "ms = []")
    case False
    have l: "last ms \<in> set ms" using False by simp
    have "fst (last ms) \<le> snd (last ms)" using Cons.prems(2) l by simp
    moreover have "snd x \<le> fst (last ms)" using Cons.prems(1) l by simp
    ultimately have "snd x \<le> snd (last ms)" by simp
    then show ?thesis using Cons False by auto
  qed (use Cons.prems in simp)
qed simp

lemma find_hole_apart:
  assumes "sorted_wrt (\<lambda>a b. snd a \<le> fst b) ms" and "\<forall>m\<in>set ms. fst m \<le> snd m" and "m \<in> set ms"
  shows "\<not> (fst m \<le> find_hole 1 ms p \<and> find_hole 1 ms p < snd m)"
proof (cases "hole_loop 1 ms p")
  case None
  then show ?thesis using last_end [OF assms] by (simp add: find_hole_def)
next
  case (Some q)
  then show ?thesis using hole_loop_apart [OF assms(1,2) Some assms(3)] by (simp add: find_hole_def)
qed

lemma find_hole_bound:
  assumes "\<forall>m\<in>set ms. snd m + 2 < k" and "p < k" and "ms \<noteq> []"
  shows "find_hole n ms p < k"
  using assms hole_loop_result [of n ms p] last_in_set [OF assms(3)]
  by (cases "hole_loop n ms p") (auto simp: find_hole_def)

section \<open>Mapping the hole\<close>

lemma prot_nonzero: "prot_to_permissions prot \<noteq> 0"
proof -
  have "bit (prot_to_permissions prot) 3"
    by (simp add: prot_to_permissions_def Let_def bit_or_iff gm_defs bit_simps)
  then show ?thesis by auto
qed

lemma iter_items_one: "v < v + 1 \<Longrightarrow> iter_items (v + 1) v = [v]"
  by (simp only: iter_items_less iter_items_ge not_less order_refl)

lemma of_nat_Suc_less: "h + 1 < 2 ^ 52 \<Longrightarrow> (of_nat h :: usize) < of_nat h + 1"
  using unat_small [of h] unat_small [of "h + 1"] by (simp add: word_less_nat_alt add.commute)

text \<open>A choice that is not null goes on to map the pages from it.\<close>

lemma mmap_selected:
  assumes sel: "sys_mmap_select_addr mem (page q) (page n) = Some (page h)" and h: "0 < h" "h + n < 2 ^ 52" "0 < n"
  shows "sys_mmap_anonymous M F (page q) (page n) perms 0 (mem, s) =
    sbind (sunwrap (alloc_and_map_area M F
        \<lparr>ma_range = \<lparr>pr_start = of_nat h, pr_end = of_nat (h + n)\<rparr>, ma_area_type = VMA, ma_map_type = Framed,
         ma_permissions = perms, ma_allocation = None\<rparr> (mem, s)))
      (\<lambda>_ st. (Ok (page h), st))"
proof -
  have nn: "\<not> is_null (page h)"
    using unat_page [of h] h unfolding is_null_def by (auto simp: unat_eq_0 [symmetric] simp del: unat_eq_0)
  have add: "addr_add (page h) (page n) = Some (page (h + n))" using h by (intro page_add)
  have ce: "to_ceil_page_num (page (h + n)) = Some (of_nat (h + n))" using h by (intro page_ceil)
  have fl: "to_floor_page_num (page h) = of_nat h"
    using h page_inv(1) [of h] by (simp add: to_floor_page_num_def PAGE_SIZE_def)
  have le: "(of_nat h :: usize) \<le> of_nat (h + n)"
    using h unat_small [of h] unat_small [of "h + n"] unfolding word_le_nat_alt by simp
  have "pr_from_start_end (of_nat h) (of_nat (h + n)) = Some \<lparr>pr_start = of_nat h, pr_end = of_nat (h + n)\<rparr>"
    using le by (simp only: pr_from_start_end_def assert_that_def if_True bind.bind_lunit)
  then show ?thesis
    unfolding sys_mmap_anonymous_def prod.case sel option.case
    by (simp only: nn if_False add ce bind.bind_lunit fl option.case) simp
qed

lemma ceil_one:
  assumes "0 < len" "len \<le> (4096 :: usize)"
  shows "do { n \<leftarrow> udiv_ceil len PAGE_SIZE; umul n PAGE_SIZE } = Some 4096"
proof (cases "len = 4096")
  case True
  then show ?thesis by (simp add: udiv_ceil_def PAGE_SIZE_def umul_def)
next
  case False
  then have "unat len < 4096" using assms by (simp add: word_le_nat_alt word_unat_eq_iff)
  then have "len div 4096 = 0" "len mod 4096 = len" by (simp_all add: word_unat_eq_iff unat_div_distrib unat_mod_distrib)
  then show ?thesis using assms by (simp add: udiv_ceil_def PAGE_SIZE_def umul_def uadd_def)
qed

lemma mmap_rounded:
  assumes "is_page_aligned addr" "is_null addr \<or> VMA_MIN_ADDR \<le> addr" "0 < len" "len \<le> 4096"
  shows "sys_mmap M F addr len prot MAP_ANONYMOUS fd 0 st = sys_mmap_anonymous M F addr (page 1) (prot_to_permissions prot) 0 st"
  using assms ceil_one [OF assms(3,4)] by (auto simp: sys_mmap_def VMA_MAX_LEN_def Let_def)

text \<open>The mappings do not overlap, also as intervals, and leave room at the top.\<close>

definition apart :: "mapping_area list \<Rightarrow> bool" where
  "apart areas \<longleftrightarrow> sorted_wrt (\<lambda>a b. pr_end (ma_range a) \<le> pr_start (ma_range b))
     (sort_key (\<lambda>a. pr_end (ma_range a)) areas)"

definition low :: "nat \<Rightarrow> mapping_area list \<Rightarrow> bool" where
  "low k areas \<longleftrightarrow> (\<forall>a\<in>set areas. pr_start (ma_range a) \<le> pr_end (ma_range a) \<and> unat (pr_end (ma_range a)) + 3 < k)"

lemma select_one_page:
  assumes ap: "apart (mapping_areas mem)" and lw: "low k (mapping_areas mem)" and k: "65537 < k" "k \<le> 2 ^ 36" and q: "q + 1 < k"
  shows "\<exists>h. sys_mmap_select_addr mem (page q) (page 1) = Some (page h) \<and> 0 < h \<and> h + 1 < k
    \<and> (\<forall>a\<in>set (mapping_areas mem). \<not> area_contains a (of_nat h))"
proof (cases "mapping_areas mem = []")
  case True
  have "is_null (page q) \<longleftrightarrow> q = 0"
    using unat_page [of q] q k unfolding is_null_def by (auto simp: unat_eq_0 [symmetric] simp del: unat_eq_0)
  then show ?thesis
    using True k q
    by (intro exI [of _ "if q = 0 then 65536 else q"])
      (auto simp: sys_mmap_select_addr_def assert_that_def PAGE_SIZE_def VMA_BASE_def)
next
  case False
  let ?ms = "sort_key (\<lambda>a. pr_end (ma_range a)) (mapping_areas mem)"
  let ?is = "map interval ?ms" and ?p = "if q = 0 then snd (interval (hd ?ms)) + 2 else q"
  let ?h = "find_hole 1 ?is ?p"
  have iv: "interval a = (unat (pr_start (ma_range a)), unat (pr_end (ma_range a)))" for a by (simp add: interval_def)
  have set: "set ?ms = set (mapping_areas mem)" by simp
  have ne: "?ms \<noteq> []" using False by (metis set set_empty)
  have bd: "in_bounds 1 (mapping_areas mem)" using lw k by (auto simp: in_bounds_def low_def iv word_le_nat_alt)
  have ends: "\<forall>m\<in>set ?is. snd m + 3 < k" using lw by (auto simp: low_def iv)
  have "hd ?ms \<in> set ?ms" using ne by (rule hd_in_set)
  then have p: "?p + 1 < k" using q ends by auto
  have srt: "sorted_wrt (\<lambda>a b. snd a \<le> fst b) ?is"
    using ap by (simp add: apart_def sorted_wrt_map iv word_le_nat_alt)
  have val: "\<forall>m\<in>set ?is. fst m \<le> snd m" using lw by (auto simp: low_def iv word_le_nat_alt)
  have sel: "sys_mmap_select_addr mem (page q) (page 1) = Some (page ?h)"
    by (rule select_addr_refines [OF bd False _ refl]) (use q k in auto)
  have hb: "?h < k - 1" by (rule find_hole_bound) (use ends p ne in auto)
  have "0 < ?h" using hole_loop_result [of 1 ?is ?p] by (cases "hole_loop 1 ?is ?p") (auto simp: find_hole_def)
  moreover have "\<not> area_contains a (of_nat ?h)" if "a \<in> set (mapping_areas mem)" for a
  proof -
    have "interval a \<in> set ?is" using that by simp
    from find_hole_apart [OF srt val this, of ?p] show ?thesis
      using page_contains [of ?h "ma_range a"] hb k by (simp add: area_contains_def iv)
  qed
  ultimately show ?thesis using sel hb by (intro exI [of _ ?h]) simp
qed

lemma aligned_page: "is_page_aligned addr \<Longrightarrow> addr = page (unat addr div 4096)"
proof -
  assume "is_page_aligned addr"
  then have "unat addr mod 4096 = 0"
    by (simp add: is_page_aligned_def is_aligned_def PAGE_SIZE_def word_unat_eq_iff unat_mod_distrib)
  then have d: "unat addr div 4096 * 4096 = unat addr" by (simp only: dvd_div_mult_self dvd_eq_mod_eq_0)
  have "unat addr div 4096 < 2 ^ 52" using unat_lt_u64 [of addr] by simp
  then have "unat (page (unat addr div 4096)) = unat addr" by (rule trans [OF unat_page d])
  from word_unat_eq_iff [THEN iffD2, OF this [symmetric]] show ?thesis .
qed

section \<open>Properties\<close>



text \<open>C26: an anonymous mapping of at most one page, at any admissible address or at a null one, in an
  address space whose areas are apart, goes to a page that no area contains; it returns the address,
  adds an area of exactly that page with the requested permissions and keeps the invariant of the
  address space, and panics only when no frame is left.\<close>

theorem sys_mmap_one_page:
  assumes "A = sv39 \<or> A = la64" and "native_space A (mem, st)" and "native_clean st"
    and "apart (mapping_areas mem)" and "low (2 ^ (9 * LEVELS A)) (mapping_areas mem)"
    and "\<forall>v. native_page_ok A v \<longrightarrow> (\<forall>a\<in>set (mapping_areas mem). \<not> area_contains a v) \<longrightarrow> native_open A st v"
    and "is_page_aligned addr" and "is_null addr \<or> VMA_MIN_ADDR \<le> addr" and "unat addr div 4096 + 1 < 2 ^ (9 * LEVELS A)"
    and "0 < len" and "len \<le> 4096"
    and "sys_mmap (native_immu A) native_frames addr len prot MAP_ANONYMOUS fd 0 (mem, st) = (r, mem', st')"
  shows "r = Panic \<and> native_exhausted st'
    \<or> (\<exists>v al. r = Ok (v * 4096) \<and> (\<forall>a\<in>set (mapping_areas mem). \<not> area_contains a v)
        \<and> native_space A (mem', st') \<and> native_clean st'
        \<and> mapping_areas mem' = mapping_areas mem @
            [\<lparr>ma_range = \<lparr>pr_start = v, pr_end = v + 1\<rparr>, ma_area_type = VMA, ma_map_type = Framed,
              ma_permissions = prot_to_permissions prot, ma_allocation = Some al\<rparr>])"
proof -
  let ?k = "2 ^ (9 * LEVELS A) :: nat"
  have k: "65537 < ?k" "?k \<le> 2 ^ 36" using arch_levels [OF assms(1)] by auto
  obtain q where addr: "addr = page q" and q: "q + 1 < ?k"
    using aligned_page [OF assms(7)] assms(9) by blast
  obtain h where h: "sys_mmap_select_addr mem (page q) (page 1) = Some (page h)" "0 < h" "h + 1 < ?k"
      "\<forall>a\<in>set (mapping_areas mem). \<not> area_contains a (of_nat h)"
    using select_one_page [OF assms(4,5) k q] by blast
  have h52: "h + 1 < 2 ^ 52" using h(3) k by simp
  let ?a = "\<lparr>ma_range = \<lparr>pr_start = of_nat h, pr_end = of_nat (h + 1)\<rparr>, ma_area_type = VMA, ma_map_type = Framed,
         ma_permissions = prot_to_permissions prot, ma_allocation = None\<rparr>"
  have run: "sys_mmap (native_immu A) native_frames addr len prot MAP_ANONYMOUS fd 0 (mem, st) =
      sbind (sunwrap (alloc_and_map_area (native_immu A) native_frames ?a (mem, st))) (\<lambda>_ st. (Ok (page h), st))"
    by (rule trans [OF mmap_rounded [OF assms(7,8,10,11)]])
      (simp only: addr, rule mmap_selected [OF h(1,2) h52 zero_less_one])
  obtain r1 mem1 st1 where m: "alloc_and_map_area (native_immu A) native_frames ?a (mem, st) = (r1, mem1, st1)"
    by (metis surj_pair)
  have hu: "unat (of_nat h :: usize) = h" "(of_nat (h + 1) :: usize) = of_nat h + 1"
    using h52 by (auto intro: unat_small)
  have pages: "area_pages ?a = [of_nat h]"
    unfolding area_pages_def pr_iter_def mapping_area.select_convs page_range.select_convs hu(2)
    by (rule iter_items_one [OF of_nat_Suc_less [OF h52]])
  have okp: "native_page_ok A (of_nat h)" using h(3) hu(1) by (simp add: native_page_ok_def)
  have "native_open A st (of_nat h)" using assms(6) okp h(4) by blast
  then show ?thesis
    using address_space.alloc_and_map_area_spec [OF native_address_space [OF assms(1)] assms(2,3) _ _ _ m]
      assms(12) run m pages okp prot_nonzero h(4) hu(2)
    by (cases r1) auto
qed

definition page_area :: "usize \<Rightarrow> mapping_area" where
  "page_area v = \<lparr>ma_range = \<lparr>pr_start = v, pr_end = v + 1\<rparr>, ma_area_type = VMA, ma_map_type = Framed,
     ma_permissions = 0, ma_allocation = None\<rparr>"

lemma mmap_run:
  "fst (sys_mmap (native_immu sv39) native_frames 0 100 PROT_READ MAP_ANONYMOUS 0 0 (ms_new, boot_table)) = Ok 0x10000000"
proof -
  have pages: "iter_items 65537 65536 = [65536]" by (simp add: iter_items_less iter_items_ge)
  have "prot_to_permissions PROT_READ = User OR Readable"
    by (simp add: prot_to_permissions_def PROT_READ_def PROT_WRITE_def PROT_EXECUTE_def)
  then show ?thesis
    by (simp add: mmap_rounded is_null_def sys_mmap_anonymous_def sys_mmap_select_addr_def assert_that_def
        VMA_BASE_def ms_new_def to_ceil_page_num_def udiv_ceil_def to_floor_page_num_def pr_from_start_end_def
        alloc_and_map_area_def pr_iter_def pages native_immu_def native_frames_def create_empty_area_allocation_def
        start_addr_def umul_def boot_table_eq run_simps)
qed

theorem sys_mmap_one_page_witness:
  "\<exists>mem st. sys_mmap (native_immu sv39) native_frames 0 100 PROT_READ MAP_ANONYMOUS 0 0 (ms_new, boot_table)
      = (Ok 0x10000000, mem, st) \<and> native_space sv39 (mem, st) \<and> length (mapping_areas mem) = 1"
proof -
  obtain mem st where run: "sys_mmap (native_immu sv39) native_frames 0 100 PROT_READ MAP_ANONYMOUS 0 0 (ms_new, boot_table)
      = (Ok 0x10000000, mem, st)"
    using mmap_run by (metis prod.collapse)
  have "\<forall>v. native_page_ok sv39 v \<longrightarrow> native_open sv39 boot_table v"
    using boot_open [of sv39] by (simp add: native_open_def case_prod_beta)
  then have "native_space sv39 (mem, st) \<and> length (mapping_areas mem) = 1"
    using sys_mmap_one_page [OF _ _ _ _ _ _ _ _ _ _ _ run] new_space [of sv39 boot_table] boot_inv(1) [of sv39]
    by (auto simp: ms_new_def apart_def low_def is_page_aligned_def is_aligned_def PAGE_SIZE_def is_null_def sv39_def)
  with run show ?thesis by blast
qed

text \<open>A request of more than one page can be sent over an existing area: the search only tests
  whether the ends of the hole lie in a mapping. With areas at pages 256, 261 and 512 a request of
  sixteen pages at a null address is answered with page 259, and the second area lies inside.\<close>

theorem sys_mmap_select_overlaps:
  "sys_mmap_select_addr (ms_new\<lparr>mapping_areas := [page_area 256, page_area 261, page_area 512]\<rparr>) (page 0) (page 16)
     = Some (page 259)
   \<and> area_contains (page_area 261) 261 \<and> 259 \<le> (261 :: usize) \<and> (261 :: usize) < 259 + 16"
proof -
  let ?mem = "ms_new\<lparr>mapping_areas := [page_area 256, page_area 261, page_area 512]\<rparr>"
  have "in_bounds 16 (mapping_areas ?mem)" by (simp add: in_bounds_def interval_def page_area_def)
  from select_addr_refines [OF this _ _ refl, of 0] show ?thesis
    by (simp add: interval_def find_hole_def page_area_def area_contains_def pr_contains_def)
qed

end
