(* ===== verification/Timing.thy ===== *)
theory Timing
  imports Prelude
begin

text \<open>
  The time library (libraries/timing): \<^verbatim>\<open>TimeSpec\<close> (seconds and nanoseconds), \<^verbatim>\<open>TimeVal\<close> (seconds
  and microseconds), \<^verbatim>\<open>TimeSpan\<close> (ticks of 100 ns), and the conversions to the types of the
  standard library. An i64 is an integer with its range written out: a checked operation goes
  through \<^verbatim>\<open>chk\<close>, which panics outside the range, a cast goes through \<^verbatim>\<open>as_i64\<close>, which wraps. The
  products in 128 bits cannot overflow on 64-bit operands and are plain integer products. The
  functions that return or take floating point numbers are not modelled.
\<close>

section \<open>Integers of the language\<close>

definition chk :: "int \<Rightarrow> int option" where
  "chk x = (if in_i64 x then Some x else None)"

definition as_i64 :: "int \<Rightarrow> int" where
  "as_i64 x = (x + 2 ^ 63) mod 2 ^ 64 - 2 ^ 63"

definition as_i32 :: "int \<Rightarrow> int" where
  "as_i32 x = (x + 2 ^ 31) mod 2 ^ 32 - 2 ^ 31"

definition as_u64 :: "int \<Rightarrow> int" where
  "as_u64 x = x mod 2 ^ 64"

abbreviation I64_MIN :: int where "I64_MIN \<equiv> - (2 ^ 63)"

abbreviation I64_MAX :: int where "I64_MAX \<equiv> 2 ^ 63 - 1"

text \<open>Division with a remainder that is never negative; it overflows only in
  \<^verbatim>\<open>i64::MIN / -1\<close> and panics on a zero divisor.\<close>

definition div_euclid :: "int \<Rightarrow> int \<Rightarrow> int option" where
  "div_euclid a b = (if b = 0 then None else chk (sgn b * (a div \<bar>b\<bar>)))"

definition rem_euclid :: "int \<Rightarrow> int \<Rightarrow> int option" where
  "rem_euclid a b = (if b = 0 \<or> a = I64_MIN \<and> b = -1 then None else Some (a mod \<bar>b\<bar>))"

definition NSEC_PER_SEC :: int where "NSEC_PER_SEC = 1000000000"

definition USEC_PER_SEC :: int where "USEC_PER_SEC = 1000000"

section \<open>TimeSpan: the ticks\<close>

definition TICKS_PER_MICROSECOND :: int where "TICKS_PER_MICROSECOND = 10"
definition TICKS_PER_MILLISECOND :: int where "TICKS_PER_MILLISECOND = TICKS_PER_MICROSECOND * 1000"
definition TICKS_PER_SECOND :: int where "TICKS_PER_SECOND = TICKS_PER_MILLISECOND * 1000"
definition TICKS_PER_MINUTE :: int where "TICKS_PER_MINUTE = TICKS_PER_SECOND * 60"
definition TICKS_PER_HOUR :: int where "TICKS_PER_HOUR = TICKS_PER_MINUTE * 60"
definition TICKS_PER_DAY :: int where "TICKS_PER_DAY = TICKS_PER_HOUR * 24"
definition MIN_TICKS :: int where "MIN_TICKS = I64_MIN"
definition MAX_TICKS :: int where "MAX_TICKS = I64_MAX"
definition MIN_MICROSECONDS :: int where "MIN_MICROSECONDS = trunc_div MIN_TICKS TICKS_PER_MICROSECOND"
definition MAX_MICROSECONDS :: int where "MAX_MICROSECONDS = trunc_div MAX_TICKS TICKS_PER_MICROSECOND"

lemmas tick_defs = TICKS_PER_DAY_def TICKS_PER_HOUR_def TICKS_PER_MINUTE_def TICKS_PER_SECOND_def
  TICKS_PER_MILLISECOND_def TICKS_PER_MICROSECOND_def

record timespan = ticks_of :: int

definition span_zero :: timespan where "span_zero = \<lparr>ticks_of = 0\<rparr>"
definition span_max_value :: timespan where "span_max_value = \<lparr>ticks_of = MAX_TICKS\<rparr>"
definition span_min_value :: timespan where "span_min_value = \<lparr>ticks_of = MIN_TICKS\<rparr>"

definition span_from_ticks :: "int \<Rightarrow> timespan" where
  "span_from_ticks t = \<lparr>ticks_of = t\<rparr>"

definition to_us :: "int \<Rightarrow> int \<Rightarrow> int" where
  "to_us ticks_per_unit v = v * trunc_div ticks_per_unit TICKS_PER_MICROSECOND"

definition span_from :: "int \<Rightarrow> int \<Rightarrow> int \<Rightarrow> int \<Rightarrow> int \<Rightarrow> int \<Rightarrow> timespan" where
  "span_from days hours minutes seconds milliseconds microseconds =
     (let total_us = to_us TICKS_PER_DAY days + to_us TICKS_PER_HOUR hours
            + to_us TICKS_PER_MINUTE minutes + to_us TICKS_PER_SECOND seconds
            + to_us TICKS_PER_MILLISECOND milliseconds + microseconds;
          total_us = min (max total_us MIN_MICROSECONDS) MAX_MICROSECONDS
      in \<lparr>ticks_of = as_i64 (total_us * TICKS_PER_MICROSECOND)\<rparr>)"

definition span_from_days_ms :: "int \<Rightarrow> int \<Rightarrow> int \<Rightarrow> int \<Rightarrow> int \<Rightarrow> timespan" where
  "span_from_days_ms days hours minutes seconds milliseconds =
     span_from days hours minutes seconds milliseconds 0"

definition span_from_days_sec :: "int \<Rightarrow> int \<Rightarrow> int \<Rightarrow> int \<Rightarrow> timespan" where
  "span_from_days_sec days hours minutes seconds = span_from_days_ms days hours minutes seconds 0"

definition span_from_hours_sec :: "int \<Rightarrow> int \<Rightarrow> int \<Rightarrow> timespan" where
  "span_from_hours_sec hours minutes seconds = span_from_days_sec 0 hours minutes seconds"

definition span_ticks :: "timespan \<Rightarrow> int" where "span_ticks t = ticks_of t"

definition span_days :: "timespan \<Rightarrow> int" where
  "span_days t = as_i32 (trunc_div (ticks_of t) TICKS_PER_DAY)"

definition span_hours :: "timespan \<Rightarrow> int" where
  "span_hours t = as_i32 (trunc_rem (trunc_div (ticks_of t) TICKS_PER_HOUR) 24)"

definition span_minutes :: "timespan \<Rightarrow> int" where
  "span_minutes t = as_i32 (trunc_rem (trunc_div (ticks_of t) TICKS_PER_MINUTE) 60)"

definition span_seconds :: "timespan \<Rightarrow> int" where
  "span_seconds t = as_i32 (trunc_rem (trunc_div (ticks_of t) TICKS_PER_SECOND) 60)"

definition span_milliseconds :: "timespan \<Rightarrow> int" where
  "span_milliseconds t = as_i32 (trunc_rem (trunc_div (ticks_of t) TICKS_PER_MILLISECOND) 1000)"

definition span_microseconds :: "timespan \<Rightarrow> int" where
  "span_microseconds t = as_i32 (trunc_rem (trunc_div (ticks_of t) TICKS_PER_MICROSECOND) 1000)"

definition span_nanoseconds :: "timespan \<Rightarrow> int" where
  "span_nanoseconds t = as_i32 ((ticks_of t mod TICKS_PER_MICROSECOND) * 100)"

definition span_is_zero :: "timespan \<Rightarrow> bool" where "span_is_zero t = (ticks_of t = 0)"
definition span_is_positive :: "timespan \<Rightarrow> bool" where "span_is_positive t = (ticks_of t > 0)"
definition span_is_negative :: "timespan \<Rightarrow> bool" where "span_is_negative t = (ticks_of t < 0)"

definition span_neg :: "timespan \<Rightarrow> timespan option" where
  "span_neg t = do { n \<leftarrow> chk (- span_ticks t); Some (span_from_ticks n) }"

definition span_abs :: "timespan \<Rightarrow> timespan option" where
  "span_abs t = (if span_is_negative t then do { n \<leftarrow> chk (- ticks_of t); Some \<lparr>ticks_of = n\<rparr> } else Some t)"

definition span_add :: "timespan \<Rightarrow> timespan \<Rightarrow> timespan option" where
  "span_add s t = do { n \<leftarrow> chk (ticks_of s + ticks_of t); Some \<lparr>ticks_of = n\<rparr> }"

definition span_add_assign :: "timespan \<Rightarrow> timespan \<Rightarrow> timespan option" where
  "span_add_assign s t = do { n \<leftarrow> chk (ticks_of s + ticks_of t); Some (s\<lparr>ticks_of := n\<rparr>) }"

definition span_sub :: "timespan \<Rightarrow> timespan \<Rightarrow> timespan option" where
  "span_sub s t = do { n \<leftarrow> chk (ticks_of s - ticks_of t); Some \<lparr>ticks_of = n\<rparr> }"

definition span_sub_assign :: "timespan \<Rightarrow> timespan \<Rightarrow> timespan option" where
  "span_sub_assign s t = do { n \<leftarrow> chk (ticks_of s - ticks_of t); Some (s\<lparr>ticks_of := n\<rparr>) }"

section \<open>TimeSpec and TimeVal: the data\<close>

record timespec =
  tv_sec :: int
  tv_nsec :: int

record timeval =
  val_sec :: int
  tv_usec :: int

section \<open>TimeSpec\<close>

definition spec_new :: "int \<Rightarrow> int \<Rightarrow> timespec option" where
  "spec_new sec nsec = do {
     q \<leftarrow> div_euclid nsec NSEC_PER_SEC;
     s \<leftarrow> chk (sec + q);
     n \<leftarrow> rem_euclid nsec NSEC_PER_SEC;
     Some \<lparr>tv_sec = s, tv_nsec = n\<rparr> }"

definition spec_new_unchecked :: "int \<Rightarrow> int \<Rightarrow> timespec" where
  "spec_new_unchecked sec nsec = \<lparr>tv_sec = sec, tv_nsec = nsec\<rparr>"

definition spec_is_posix :: "timespec \<Rightarrow> bool" where
  "spec_is_posix t = (tv_sec t \<ge> 0 \<and> tv_nsec t \<ge> 0 \<and> tv_nsec t < NSEC_PER_SEC)"

definition spec_zero :: timespec where "spec_zero = \<lparr>tv_sec = 0, tv_nsec = 0\<rparr>"

definition spec_from_ticks :: "int \<Rightarrow> int \<Rightarrow> timespec option" where
  "spec_from_ticks ticks freq = do {
     assert_that (freq > 0);
     let f = as_i64 freq;
     sec \<leftarrow> div_euclid ticks f;
     r \<leftarrow> rem_euclid ticks f;
     Some \<lparr>tv_sec = sec, tv_nsec = as_i64 (trunc_div (r * NSEC_PER_SEC) f)\<rparr> }"

definition spec_add_nanos :: "timespec \<Rightarrow> int \<Rightarrow> timespec option" where
  "spec_add_nanos t nanos = do {
     total \<leftarrow> chk (tv_nsec t + nanos);
     q \<leftarrow> div_euclid total NSEC_PER_SEC;
     s \<leftarrow> chk (tv_sec t + q);
     n \<leftarrow> rem_euclid total NSEC_PER_SEC;
     Some (t\<lparr>tv_sec := s, tv_nsec := n\<rparr>) }"

definition spec_to_timeval :: "timespec \<Rightarrow> timeval option" where
  "spec_to_timeval t = do {
     s \<leftarrow> chk (tv_sec t + trunc_div (tv_nsec t) NSEC_PER_SEC);
     Some \<lparr>val_sec = s, tv_usec = trunc_div (trunc_rem (tv_nsec t) NSEC_PER_SEC) 1000\<rparr> }"

definition spec_total_nanoseconds :: "timespec \<Rightarrow> int option" where
  "spec_total_nanoseconds t = do { p \<leftarrow> chk (tv_sec t * NSEC_PER_SEC); chk (p + tv_nsec t) }"

definition spec_to_timespan :: "timespec \<Rightarrow> timespan option" where
  "spec_to_timespan t = do {
     p \<leftarrow> chk (tv_sec t * NSEC_PER_SEC);
     total_nanos \<leftarrow> chk (p + tv_nsec t);
     Some (span_from_ticks (trunc_div total_nanos 100)) }"

definition spec_is_zero :: "timespec \<Rightarrow> bool" where
  "spec_is_zero t = (tv_sec t = 0 \<and> tv_nsec t = 0)"

definition spec_is_positive :: "timespec \<Rightarrow> bool" where
  "spec_is_positive t = (tv_sec t > 0 \<or> tv_sec t = 0 \<and> tv_nsec t > 0)"

definition spec_is_negative :: "timespec \<Rightarrow> bool" where
  "spec_is_negative t = (tv_sec t < 0 \<or> tv_sec t = 0 \<and> tv_nsec t < 0)"

definition spec_abs :: "timespec \<Rightarrow> timespec" where
  "spec_abs t =
     (let total = \<bar>tv_sec t * NSEC_PER_SEC + tv_nsec t\<bar>
      in \<lparr>tv_sec = as_i64 (trunc_div total NSEC_PER_SEC), tv_nsec = as_i64 (trunc_rem total NSEC_PER_SEC)\<rparr>)"

definition spec_add_seconds :: "timespec \<Rightarrow> int \<Rightarrow> timespec option" where
  "spec_add_seconds t seconds = do { s \<leftarrow> chk (tv_sec t + seconds); Some (t\<lparr>tv_sec := s\<rparr>) }"

definition clamp :: "int \<Rightarrow> int \<Rightarrow> int \<Rightarrow> int" where
  "clamp x lo hi = (if x < lo then lo else if x > hi then hi else x)"

definition spec_add_milliseconds :: "timespec \<Rightarrow> int \<Rightarrow> timespec option" where
  "spec_add_milliseconds t milliseconds =
     spec_add_nanos t (as_i64 (clamp (milliseconds * 1000000) I64_MIN I64_MAX))"

definition spec_add_microseconds :: "timespec \<Rightarrow> int \<Rightarrow> timespec option" where
  "spec_add_microseconds t microseconds =
     spec_add_nanos t (as_i64 (clamp (microseconds * 1000) I64_MIN I64_MAX))"

definition spec_add :: "timespec \<Rightarrow> timespec \<Rightarrow> timespec option" where
  "spec_add t u = do {
     s \<leftarrow> chk (tv_sec t + tv_sec u);
     spec_add_nanos (t\<lparr>tv_sec := s\<rparr>) (tv_nsec u) }"

definition spec_add_assign :: "timespec \<Rightarrow> timespec \<Rightarrow> timespec option" where
  "spec_add_assign t u = do {
     s \<leftarrow> chk (tv_sec t + tv_sec u);
     spec_add_nanos (t\<lparr>tv_sec := s\<rparr>) (tv_nsec u) }"

definition spec_sub :: "timespec \<Rightarrow> timespec \<Rightarrow> timespec option" where
  "spec_sub t u = do {
     s \<leftarrow> chk (tv_sec t - tv_sec u);
     n \<leftarrow> chk (- tv_nsec u);
     spec_add_nanos (t\<lparr>tv_sec := s\<rparr>) n }"

definition spec_sub_assign :: "timespec \<Rightarrow> timespec \<Rightarrow> timespec option" where
  "spec_sub_assign t u = do {
     s \<leftarrow> chk (tv_sec t - tv_sec u);
     n \<leftarrow> chk (- tv_nsec u);
     spec_add_nanos (t\<lparr>tv_sec := s\<rparr>) n }"

section \<open>TimeVal\<close>

definition val_new :: "int \<Rightarrow> int \<Rightarrow> timeval option" where
  "val_new sec usec = do {
     q \<leftarrow> div_euclid usec USEC_PER_SEC;
     s \<leftarrow> chk (sec + q);
     us \<leftarrow> rem_euclid usec USEC_PER_SEC;
     if us < 0
     then do { s \<leftarrow> chk (s - 1); us \<leftarrow> chk (us + USEC_PER_SEC); Some \<lparr>val_sec = s, tv_usec = us\<rparr> }
     else Some \<lparr>val_sec = s, tv_usec = us\<rparr> }"

definition val_new_unchecked :: "int \<Rightarrow> int \<Rightarrow> timeval" where
  "val_new_unchecked sec usec = \<lparr>val_sec = sec, tv_usec = usec\<rparr>"

definition val_is_posix :: "timeval \<Rightarrow> bool" where
  "val_is_posix t = (tv_usec t \<ge> 0 \<and> tv_usec t < USEC_PER_SEC)"

definition val_zero :: timeval where "val_zero = \<lparr>val_sec = 0, tv_usec = 0\<rparr>"

definition val_default :: timeval where "val_default = val_zero"

definition val_from_ticks :: "int \<Rightarrow> int \<Rightarrow> timeval option" where
  "val_from_ticks ticks freq = do {
     assert_that (freq > 0);
     Some \<lparr>val_sec = as_i64 (ticks div freq),
           tv_usec = as_i64 (trunc_div ((ticks mod freq) * USEC_PER_SEC) freq)\<rparr> }"

definition val_add_usec :: "timeval \<Rightarrow> int \<Rightarrow> timeval option" where
  "val_add_usec t usec = do {
     q \<leftarrow> div_euclid usec USEC_PER_SEC;
     s \<leftarrow> chk (val_sec t + q);
     r \<leftarrow> rem_euclid usec USEC_PER_SEC;
     us \<leftarrow> chk (tv_usec t + r);
     if us \<ge> USEC_PER_SEC
     then do {
       s \<leftarrow> chk (s + trunc_div us USEC_PER_SEC);
       Some (t\<lparr>val_sec := s, tv_usec := trunc_rem us USEC_PER_SEC\<rparr>) }
     else if us < 0
     then do {
       n \<leftarrow> chk (- us);
       n \<leftarrow> chk (n + USEC_PER_SEC);
       n \<leftarrow> chk (n - 1);
       let borrow = trunc_div n USEC_PER_SEC;
       s \<leftarrow> chk (s - borrow);
       b \<leftarrow> chk (borrow * USEC_PER_SEC);
       us \<leftarrow> chk (us + b);
       Some (t\<lparr>val_sec := s, tv_usec := us\<rparr>) }
     else Some (t\<lparr>val_sec := s, tv_usec := us\<rparr>) }"

definition val_to_timespec :: "timeval \<Rightarrow> timespec" where
  "val_to_timespec t =
     (let total_ns = val_sec t * NSEC_PER_SEC + tv_usec t * 1000
      in \<lparr>tv_sec = as_i64 (total_ns div NSEC_PER_SEC), tv_nsec = as_i64 (total_ns mod NSEC_PER_SEC)\<rparr>)"

definition val_to_timespan :: "timeval \<Rightarrow> timespan" where
  "val_to_timespan t =
     (let total_nanos = val_sec t * NSEC_PER_SEC + tv_usec t * 1000;
          ticks128 = trunc_div total_nanos 100;
          ticks = (if ticks128 > I64_MAX then I64_MAX
                   else if ticks128 < I64_MIN then I64_MIN
                   else as_i64 ticks128)
      in span_from_ticks ticks)"

definition val_total_microseconds :: "timeval \<Rightarrow> int option" where
  "val_total_microseconds t = do { p \<leftarrow> chk (val_sec t * USEC_PER_SEC); chk (p + tv_usec t) }"

definition val_total_nanoseconds :: "timeval \<Rightarrow> int option" where
  "val_total_nanoseconds t = do {
     p \<leftarrow> chk (val_sec t * NSEC_PER_SEC);
     q \<leftarrow> chk (tv_usec t * 1000);
     chk (p + q) }"

definition val_is_zero :: "timeval \<Rightarrow> bool" where
  "val_is_zero t = (val_sec t = 0 \<and> tv_usec t = 0)"

definition val_is_positive :: "timeval \<Rightarrow> bool" where
  "val_is_positive t = (val_sec t > 0 \<or> val_sec t = 0 \<and> tv_usec t > 0)"

definition val_is_negative :: "timeval \<Rightarrow> bool" where
  "val_is_negative t = (val_sec t < 0 \<or> val_sec t = 0 \<and> tv_usec t < 0)"

definition val_abs :: "timeval \<Rightarrow> timeval" where
  "val_abs t =
     (let total = val_sec t * USEC_PER_SEC + tv_usec t;
          abs_total = (if total < 0 then - total else total)
      in \<lparr>val_sec = as_i64 (trunc_div abs_total USEC_PER_SEC),
          tv_usec = as_i64 (trunc_rem abs_total USEC_PER_SEC)\<rparr>)"

definition val_add_seconds :: "timeval \<Rightarrow> int \<Rightarrow> timeval option" where
  "val_add_seconds t seconds = do { s \<leftarrow> chk (val_sec t + seconds); Some (t\<lparr>val_sec := s\<rparr>) }"

definition val_add_milliseconds :: "timeval \<Rightarrow> int \<Rightarrow> timeval option" where
  "val_add_milliseconds t milliseconds = do { u \<leftarrow> chk (milliseconds * 1000); val_add_usec t u }"

definition val_add :: "timeval \<Rightarrow> timeval \<Rightarrow> timeval option" where
  "val_add t u = do {
     t \<leftarrow> val_add_usec t (tv_usec u);
     s \<leftarrow> chk (val_sec t + val_sec u);
     Some (t\<lparr>val_sec := s\<rparr>) }"

definition val_add_assign :: "timeval \<Rightarrow> timeval \<Rightarrow> timeval option" where
  "val_add_assign t u = do {
     s \<leftarrow> chk (val_sec t + val_sec u);
     val_add_usec (t\<lparr>val_sec := s\<rparr>) (tv_usec u) }"

definition val_sub :: "timeval \<Rightarrow> timeval \<Rightarrow> timeval option" where
  "val_sub t u = do {
     s \<leftarrow> chk (val_sec t - val_sec u);
     n \<leftarrow> chk (- tv_usec u);
     val_add_usec (t\<lparr>val_sec := s\<rparr>) n }"

definition val_sub_assign :: "timeval \<Rightarrow> timeval \<Rightarrow> timeval option" where
  "val_sub_assign t u = do {
     s \<leftarrow> chk (val_sec t - val_sec u);
     n \<leftarrow> chk (- tv_usec u);
     val_add_usec (t\<lparr>val_sec := s\<rparr>) n }"

section \<open>Differences of two times\<close>

definition from_timespec_diff :: "timespec \<Rightarrow> timespec \<Rightarrow> timespan option" where
  "from_timespec_diff lhs rhs = do {
     diff_sec \<leftarrow> chk (tv_sec lhs - tv_sec rhs);
     diff_nsec \<leftarrow> chk (tv_nsec lhs - tv_nsec rhs);
     Some \<lparr>ticks_of = as_i64 (diff_sec * TICKS_PER_SECOND + trunc_div diff_nsec 100)\<rparr> }"

definition from_timeval_diff :: "timeval \<Rightarrow> timeval \<Rightarrow> timespan option" where
  "from_timeval_diff lhs rhs = do {
     diff_sec \<leftarrow> chk (val_sec lhs - val_sec rhs);
     diff_usec \<leftarrow> chk (tv_usec lhs - tv_usec rhs);
     Some \<lparr>ticks_of = as_i64 (diff_sec * TICKS_PER_SECOND + diff_usec * TICKS_PER_MICROSECOND)\<rparr> }"

section \<open>Conversions to the types of the standard library\<close>

text \<open>
  A \<^verbatim>\<open>Duration\<close> is its number of nanoseconds, at most \<^verbatim>\<open>u64::MAX\<close> seconds and 999999999
  nanoseconds. A \<^verbatim>\<open>SystemTime\<close> and an \<^verbatim>\<open>Instant\<close> are nanoseconds since their epoch with the seconds
  in an i64; adding to them panics outside that range.
\<close>

type_synonym duration = int
type_synonym system_time = int

definition as_secs :: "duration \<Rightarrow> int" where "as_secs d = d div NSEC_PER_SEC"
definition subsec_nanos :: "duration \<Rightarrow> int" where "subsec_nanos d = d mod NSEC_PER_SEC"

definition time_add :: "system_time \<Rightarrow> int \<Rightarrow> system_time option" where
  "time_add t d = (if in_i64 ((t + d) div NSEC_PER_SEC) then Some (t + d) else None)"

definition spec_from_system_time :: "system_time \<Rightarrow> timespec option" where
  "spec_from_system_time t =
     (if t \<ge> 0 then Some \<lparr>tv_sec = as_i64 (as_secs t), tv_nsec = as_i64 (subsec_nanos t)\<rparr>
      else let dur = - t in
        if subsec_nanos dur = 0
        then do { s \<leftarrow> chk (- as_i64 (as_secs dur)); Some \<lparr>tv_sec = s, tv_nsec = 0\<rparr> }
        else do {
          s \<leftarrow> chk (- as_i64 (as_secs dur));
          s \<leftarrow> chk (s - 1);
          n \<leftarrow> chk (NSEC_PER_SEC - subsec_nanos dur);
          Some \<lparr>tv_sec = s, tv_nsec = n\<rparr> })"

definition system_time_from_spec :: "timespec \<Rightarrow> system_time option" where
  "system_time_from_spec t =
     (let total = tv_sec t * NSEC_PER_SEC + tv_nsec t
      in if total \<ge> 0 then time_add 0 (as_u64 total) else time_add 0 (- as_u64 (- total)))"

definition val_from_system_time :: "system_time \<Rightarrow> timeval option" where
  "val_from_system_time t = do { s \<leftarrow> spec_from_system_time t; spec_to_timeval s }"

definition system_time_from_val :: "timeval \<Rightarrow> system_time option" where
  "system_time_from_val t = system_time_from_spec (val_to_timespec t)"

definition spec_from_duration :: "duration \<Rightarrow> timespec" where
  "spec_from_duration d = \<lparr>tv_sec = as_i64 (as_secs d), tv_nsec = as_i64 (subsec_nanos d)\<rparr>"

definition duration_from_spec :: "timespec \<Rightarrow> (duration, string) outcome" where
  "duration_from_spec t =
     (let total = tv_sec t * NSEC_PER_SEC + tv_nsec t
      in if total < 0 then Err ''Cannot convert negative TimeSpec to Duration''
         else Ok (as_u64 total))"

definition val_from_duration :: "duration \<Rightarrow> timeval option" where
  "val_from_duration d = spec_to_timeval (spec_from_duration d)"

definition duration_from_val :: "timeval \<Rightarrow> (duration, string) outcome" where
  "duration_from_val t =
     (let total = val_sec t * 1000000 + tv_usec t
      in if total < 0 then Err ''Cannot convert negative TimeVal to Duration''
         else Ok (as_u64 total * 1000))"

definition span_from_duration :: "duration \<Rightarrow> timespan" where
  "span_from_duration d =
     (let secs_ticks = as_secs d * 10000000;
          nanos_ticks = subsec_nanos d div 100;
          total_ticks = secs_ticks + nanos_ticks
      in span_from_ticks (if total_ticks > I64_MAX then I64_MAX else as_i64 total_ticks))"

definition duration_from_span :: "timespan \<Rightarrow> (duration, string) outcome" where
  "duration_from_span t =
     (if span_is_negative t then Err ''Cannot convert negative TimeSpan to Duration''
      else let total_nanos = span_ticks t * 100
        in if total_nanos > 2 ^ 64 - 1 then Err ''TimeSpan too large to convert to Duration''
           else Ok (as_u64 total_nanos))"

definition span_from_instant_diff :: "int \<Rightarrow> int \<Rightarrow> timespan option" where
  "span_from_instant_diff later earlier =
     (if later \<ge> earlier then Some (span_from_duration (later - earlier))
      else span_neg (span_from_duration (earlier - later)))"

text \<open>\<^verbatim>\<open>Instant::elapsed\<close> reads the clock, an argument here.\<close>

definition elapsed :: "int \<Rightarrow> int \<Rightarrow> duration" where
  "elapsed now instant = max 0 (now - instant)"

definition span_from_instant_elapsed :: "int \<Rightarrow> int \<Rightarrow> timespan" where
  "span_from_instant_elapsed now instant = span_from_duration (elapsed now instant)"

definition spec_from_instant_elapsed :: "int \<Rightarrow> int \<Rightarrow> timespec" where
  "spec_from_instant_elapsed now instant = spec_from_duration (elapsed now instant)"

definition val_from_instant_elapsed :: "int \<Rightarrow> int \<Rightarrow> timeval option" where
  "val_from_instant_elapsed now instant = val_from_duration (elapsed now instant)"

definition spec_add_to_instant :: "timespec \<Rightarrow> int \<Rightarrow> (int, string) outcome" where
  "spec_add_to_instant t instant = obind (duration_from_spec t) (\<lambda>d. of_opt (time_add instant d))"

definition val_add_to_instant :: "timeval \<Rightarrow> int \<Rightarrow> (int, string) outcome" where
  "val_add_to_instant t instant = obind (duration_from_val t) (\<lambda>d. of_opt (time_add instant d))"

section \<open>Checked integers\<close>

lemma chk_eq_Some [checked_simps]: "chk x = Some y \<longleftrightarrow> in_i64 x \<and> y = x"
  by (auto simp: chk_def)

lemma chk_ok [simp]: "in_i64 x \<Longrightarrow> chk x = Some x"
  by (simp add: chk_def)

lemma as_i64_typed [simp]: "in_i64 (as_i64 x)"
  using pos_mod_bound [of "2 ^ 64" "x + 2 ^ 63"] pos_mod_sign [of "2 ^ 64" "x + 2 ^ 63"]
  by (simp add: in_i64_def as_i64_def)

lemma as_i64_id [simp]: "in_i64 x \<Longrightarrow> as_i64 x = x"
  by (simp add: in_i64_def as_i64_def)

lemma as_i32_id: "- (2 ^ 31) \<le> x \<Longrightarrow> x < 2 ^ 31 \<Longrightarrow> as_i32 x = x"
  by (simp add: as_i32_def)

lemma in_i64_small: "0 \<le> x \<Longrightarrow> x < 1000000000000 \<Longrightarrow> in_i64 x"
  by (simp add: in_i64_def)

lemma in_i64_div_nsec: "in_i64 x \<Longrightarrow> in_i64 (x div NSEC_PER_SEC)"
  unfolding in_i64_def NSEC_PER_SEC_def by (simp, arith)

lemma in_i64_div_usec: "in_i64 x \<Longrightarrow> in_i64 (x div USEC_PER_SEC)"
  unfolding in_i64_def USEC_PER_SEC_def by (simp, arith)

lemma in_i64_mod_nsec [simp]: "in_i64 (x mod NSEC_PER_SEC)"
  using pos_mod_bound [of NSEC_PER_SEC x] pos_mod_sign [of NSEC_PER_SEC x]
  by (intro in_i64_small) (simp_all add: NSEC_PER_SEC_def)

lemma in_i64_mod_usec [simp]: "in_i64 (x mod USEC_PER_SEC)"
  using pos_mod_bound [of USEC_PER_SEC x] pos_mod_sign [of USEC_PER_SEC x]
  by (intro in_i64_small) (simp_all add: USEC_PER_SEC_def)

lemma mod_sec_bounds [simp]:
  "0 \<le> x mod NSEC_PER_SEC" "x mod NSEC_PER_SEC < NSEC_PER_SEC"
  "0 \<le> x mod USEC_PER_SEC" "x mod USEC_PER_SEC < USEC_PER_SEC" "\<not> x mod USEC_PER_SEC < 0"
  by (simp_all add: NSEC_PER_SEC_def USEC_PER_SEC_def)

lemma euclid_nsec [simp]:
  "in_i64 x \<Longrightarrow> div_euclid x NSEC_PER_SEC = Some (x div NSEC_PER_SEC)"
  "rem_euclid x NSEC_PER_SEC = Some (x mod NSEC_PER_SEC)"
  using in_i64_div_nsec [of x] by (simp_all add: div_euclid_def rem_euclid_def NSEC_PER_SEC_def)

lemma euclid_usec [simp]:
  "in_i64 x \<Longrightarrow> div_euclid x USEC_PER_SEC = Some (x div USEC_PER_SEC)"
  "rem_euclid x USEC_PER_SEC = Some (x mod USEC_PER_SEC)"
  using in_i64_div_usec [of x] by (simp_all add: div_euclid_def rem_euclid_def USEC_PER_SEC_def)

section \<open>Times as integers\<close>

text \<open>What a time means, the times of the machine, and the normal form of a number of nanoseconds.\<close>

definition nanos :: "timespec \<Rightarrow> int" where
  "nanos t = tv_sec t * NSEC_PER_SEC + tv_nsec t"

definition micros :: "timeval \<Rightarrow> int" where
  "micros t = val_sec t * USEC_PER_SEC + tv_usec t"

definition spec_typed :: "timespec \<Rightarrow> bool" where
  "spec_typed t \<longleftrightarrow> in_i64 (tv_sec t) \<and> in_i64 (tv_nsec t)"

definition val_typed :: "timeval \<Rightarrow> bool" where
  "val_typed t \<longleftrightarrow> in_i64 (val_sec t) \<and> in_i64 (tv_usec t)"

definition spec_normal :: "timespec \<Rightarrow> bool" where
  "spec_normal t \<longleftrightarrow> in_i64 (tv_sec t) \<and> 0 \<le> tv_nsec t \<and> tv_nsec t < NSEC_PER_SEC"

definition of_nanos :: "int \<Rightarrow> timespec option" where
  "of_nanos x =
     (if in_i64 (x div NSEC_PER_SEC)
      then Some \<lparr>tv_sec = x div NSEC_PER_SEC, tv_nsec = x mod NSEC_PER_SEC\<rparr> else None)"

lemma nanos_divmod:
  "(s * NSEC_PER_SEC + n) div NSEC_PER_SEC = s + n div NSEC_PER_SEC"
  "(s * NSEC_PER_SEC + n) mod NSEC_PER_SEC = n mod NSEC_PER_SEC"
  by (simp_all add: NSEC_PER_SEC_def)

lemma of_nanos_value: "of_nanos x = Some t \<Longrightarrow> nanos t = x \<and> spec_normal t"
  by (auto simp: of_nanos_def nanos_def spec_normal_def NSEC_PER_SEC_def split: if_splits)

lemma of_nanos_nanos: "spec_normal t \<Longrightarrow> of_nanos (nanos t) = Some t"
  by (simp add: of_nanos_def nanos_def spec_normal_def nanos_divmod)

lemma spec_add_nanos_eq:
  assumes "in_i64 (tv_nsec t + k)"
  shows "spec_add_nanos t k = of_nanos (nanos t + k)"
proof -
  have "of_nanos (nanos t + k) = of_nanos (tv_sec t * NSEC_PER_SEC + (tv_nsec t + k))"
    by (simp add: nanos_def add.assoc)
  then show ?thesis
    using assms by (simp add: spec_add_nanos_def of_nanos_def nanos_divmod chk_def)
qed

lemma normal_nsec_range:
  assumes "spec_normal t" "spec_normal u"
  shows "in_i64 (tv_nsec t + tv_nsec u)" "in_i64 (tv_nsec t - tv_nsec u)" "in_i64 (- tv_nsec u)" "in_i64 (tv_nsec t)"
  using assms by (simp_all add: spec_normal_def in_i64_def NSEC_PER_SEC_def)

lemma borrow_range:
  assumes "us < 0"
  shows "0 \<le> us + trunc_div (- us + USEC_PER_SEC - 1) USEC_PER_SEC * USEC_PER_SEC
    \<and> us + trunc_div (- us + USEC_PER_SEC - 1) USEC_PER_SEC * USEC_PER_SEC < USEC_PER_SEC"
proof -
  have "trunc_div (- us + USEC_PER_SEC - 1) USEC_PER_SEC = (- us + 999999) div 1000000"
    using assms by (simp add: trunc_div_nonneg USEC_PER_SEC_def)
  then show ?thesis unfolding USEC_PER_SEC_def by (simp, arith)
qed

lemma val_add_usec_posix:
  assumes "val_add_usec v a = Some w" "in_i64 a"
  shows "val_typed w \<and> val_is_posix w"
proof -
  obtain s us where s: "in_i64 s" "in_i64 us" "us = tv_usec v + a mod USEC_PER_SEC" "s = val_sec v + a div USEC_PER_SEC"
    using assms by (auto simp: val_add_usec_def bind_eq_Some_conv checked_simps)
  consider "us \<ge> USEC_PER_SEC" | "us < 0" | "0 \<le> us" "us < USEC_PER_SEC" by linarith
  then show ?thesis
  proof cases
    case 1
    then have "trunc_rem us USEC_PER_SEC = us mod USEC_PER_SEC" by (simp add: trunc_rem_nonneg USEC_PER_SEC_def)
    then show ?thesis
      using assms s 1 by (auto simp: val_add_usec_def bind_eq_Some_conv checked_simps val_typed_def val_is_posix_def)
  next
    case 2
    then have "\<not> USEC_PER_SEC \<le> us" by (simp add: USEC_PER_SEC_def)
    then show ?thesis
      using assms s 2 borrow_range [OF 2]
      by (auto simp: val_add_usec_def bind_eq_Some_conv checked_simps val_typed_def val_is_posix_def Let_def)
  next
    case 3
    then show ?thesis
      using assms s by (auto simp: val_add_usec_def bind_eq_Some_conv checked_simps val_typed_def val_is_posix_def)
  qed
qed

lemma div_eqI: "k * q \<le> x \<Longrightarrow> x < k * q + k \<Longrightarrow> x div k = (q :: int)"
  using div_pos_geq int_div_pos_eq [of x k q "x - k * q"] by simp

lemma component:
  assumes "0 \<le> x"
  shows "trunc_div x TICKS_PER_DAY = x div TICKS_PER_DAY"
    "trunc_rem (trunc_div x TICKS_PER_HOUR) 24 = x div TICKS_PER_HOUR mod 24"
    "trunc_rem (trunc_div x TICKS_PER_MINUTE) 60 = x div TICKS_PER_MINUTE mod 60"
    "trunc_rem (trunc_div x TICKS_PER_SECOND) 60 = x div TICKS_PER_SECOND mod 60"
    "trunc_rem (trunc_div x TICKS_PER_MILLISECOND) 1000 = x div TICKS_PER_MILLISECOND mod 1000"
    "trunc_rem (trunc_div x TICKS_PER_MICROSECOND) 1000 = x div TICKS_PER_MICROSECOND mod 1000"
  using assms by (simp_all add: trunc_div_nonneg trunc_rem_nonneg tick_defs pos_imp_zdiv_nonneg_iff)

lemma tick_values:
  "TICKS_PER_MICROSECOND = 10" "TICKS_PER_MILLISECOND = 10000" "TICKS_PER_SECOND = 10000000"
  "TICKS_PER_MINUTE = 600000000" "TICKS_PER_HOUR = 36000000000" "TICKS_PER_DAY = 864000000000"
  by (simp_all add: tick_defs)

section \<open>Properties\<close>

text \<open>C19: addition and subtraction of two normalised times implement the addition and subtraction of
  their nanoseconds: the result is the normal form of the sum or difference, and the operation panics
  exactly when the seconds, before or after the carry, leave the range of an i64.\<close>

theorem timespec_arith_refines:
  assumes "spec_normal t" and "spec_normal u"
  shows "spec_add t u = (if in_i64 (tv_sec t + tv_sec u) then of_nanos (nanos t + nanos u) else None)
    \<and> spec_sub t u = (if in_i64 (tv_sec t - tv_sec u) then of_nanos (nanos t - nanos u) else None)"
proof -
  note r = normal_nsec_range [OF assms]
  have "nanos t + nanos u = nanos (t\<lparr>tv_sec := tv_sec t + tv_sec u\<rparr>) + tv_nsec u"
    "nanos t - nanos u = nanos (t\<lparr>tv_sec := tv_sec t - tv_sec u\<rparr>) + - tv_nsec u"
    by (simp_all add: nanos_def algebra_simps)
  then show ?thesis
    using r by (auto simp: spec_add_def spec_sub_def chk_def spec_add_nanos_eq)
qed

theorem timespec_arith_refines_witness:
  "spec_add \<lparr>tv_sec = 1, tv_nsec = 700000000\<rparr> \<lparr>tv_sec = 2, tv_nsec = 500000000\<rparr> =
     Some \<lparr>tv_sec = 4, tv_nsec = 200000000\<rparr>
   \<and> spec_sub \<lparr>tv_sec = 1, tv_nsec = 700000000\<rparr> \<lparr>tv_sec = 2, tv_nsec = 500000000\<rparr> =
     Some \<lparr>tv_sec = -1, tv_nsec = 200000000\<rparr>"
  using timespec_arith_refines [of "\<lparr>tv_sec = 1, tv_nsec = 700000000\<rparr>" "\<lparr>tv_sec = 2, tv_nsec = 500000000\<rparr>"]
  by (simp add: spec_normal_def in_i64_def NSEC_PER_SEC_def of_nanos_def nanos_def)

text \<open>C33: converting a valid \<^verbatim>\<open>TimeVal\<close> to a \<^verbatim>\<open>TimeSpec\<close> and back gives it back, and both stand for the
  same instant.\<close>

theorem timeval_timespec_roundtrip:
  assumes "val_typed t" and "val_is_posix t"
  shows "spec_to_timeval (val_to_timespec t) = Some t \<and> nanos (val_to_timespec t) = micros t * 1000"
proof -
  have u: "0 \<le> tv_usec t" "tv_usec t < 1000000" using assms(2) by (simp_all add: val_is_posix_def USEC_PER_SEC_def)
  have "val_to_timespec t = \<lparr>tv_sec = val_sec t, tv_nsec = tv_usec t * 1000\<rparr>"
    using assms(1) u by (simp add: val_to_timespec_def nanos_divmod val_typed_def)
      (simp add: NSEC_PER_SEC_def in_i64_def)
  then show ?thesis
    using assms(1) u
    by (simp add: spec_to_timeval_def trunc_div_nonneg trunc_rem_nonneg NSEC_PER_SEC_def val_typed_def
        nanos_def micros_def USEC_PER_SEC_def)
qed

theorem timeval_timespec_roundtrip_witness:
  "spec_to_timeval (val_to_timespec \<lparr>val_sec = -3, tv_usec = 250000\<rparr>) = Some \<lparr>val_sec = -3, tv_usec = 250000\<rparr>"
  using timeval_timespec_roundtrip [of "\<lparr>val_sec = -3, tv_usec = 250000\<rparr>"]
  by (simp add: val_typed_def val_is_posix_def in_i64_def USEC_PER_SEC_def)



text \<open>C32: a \<^verbatim>\<open>TimeSpan\<close> built from days, hours, minutes, seconds, milliseconds and microseconds in their
  ranges gives exactly these components back.\<close>

theorem timespan_components:
  assumes "0 \<le> d" "d < 10000000" "0 \<le> h" "h < 24" "0 \<le> mi" "mi < 60" "0 \<le> s" "s < 60"
    "0 \<le> ms" "ms < 1000" "0 \<le> us" "us < 1000"
  defines "t \<equiv> span_from d h mi s ms us"
  shows "span_days t = d \<and> span_hours t = h \<and> span_minutes t = mi \<and> span_seconds t = s
    \<and> span_milliseconds t = ms \<and> span_microseconds t = us \<and> span_nanoseconds t = 0"
proof -
  define x1 where "x1 = h + 24 * d"
  define x2 where "x2 = mi + 60 * x1"
  define x3 where "x3 = s + 60 * x2"
  define x4 where "x4 = ms + 1000 * x3"
  define x5 where "x5 = us + 1000 * x4"
  note xs = x1_def x2_def x3_def x4_def x5_def
  have us: "to_us TICKS_PER_DAY d + to_us TICKS_PER_HOUR h + to_us TICKS_PER_MINUTE mi + to_us TICKS_PER_SECOND s
      + to_us TICKS_PER_MILLISECOND ms + us = x5"
    unfolding xs by (simp add: to_us_def tick_defs trunc_div_def)
  have b: "0 \<le> x5" "x5 < 900000000000000000" using assms(1-12) xs by linarith+
  have k: "MIN_MICROSECONDS = -922337203685477580" "MAX_MICROSECONDS = 922337203685477580"
    by (simp_all add: MIN_MICROSECONDS_def MAX_MICROSECONDS_def MIN_TICKS_def MAX_TICKS_def tick_defs trunc_div_def)
  have t: "ticks_of t = x5 * 10"
    using b unfolding t_def span_from_def us k Let_def by (simp add: tick_defs in_i64_def)
  have q: "x5 * 10 div 10 = x5" "x5 * 10 div 10000 = x4" "x5 * 10 div 10000000 = x3"
    "x5 * 10 div 600000000 = x2" "x5 * 10 div 36000000000 = x1" "x5 * 10 div 864000000000 = d"
    by (rule div_eqI; use assms(1-12) xs in linarith)+
  have m: "x1 mod 24 = h" "x2 mod 60 = mi" "x3 mod 60 = s" "x4 mod 1000 = ms" "x5 mod 1000 = us"
    using assms(3-12) unfolding x1_def unfolding x2_def unfolding x3_def unfolding x4_def unfolding x5_def
    by simp_all
  have z: "x5 * 10 mod 10 = 0" by simp
  have n: "0 \<le> x5 * 10" using b by simp
  show ?thesis
    unfolding span_days_def span_hours_def span_minutes_def span_seconds_def span_milliseconds_def
      span_microseconds_def span_nanoseconds_def t
    unfolding component [OF n]
    using assms(1-12) by (simp only: tick_values q m z) (simp add: as_i32_id)
qed

theorem timespan_components_witness:
  "span_hours (span_from 3 23 59 58 999 1) = 23 \<and> span_seconds (span_from 3 23 59 58 999 1) = 58"
  using timespan_components [of 3 23 59 58 999 1] by simp

text \<open>A \<^verbatim>\<open>Duration\<close> that is converted to a \<^verbatim>\<open>TimeSpec\<close> and back loses everything from 2^64 nanoseconds
  on, about 584 years: the conversion casts the total to 64 bits and reports no error.\<close>

theorem duration_roundtrip_wraps:
  assumes "0 \<le> d" and "in_i64 (d div NSEC_PER_SEC)"
  shows "duration_from_spec (spec_from_duration d) = Ok (d mod 2 ^ 64)"
proof -
  have "d div NSEC_PER_SEC * NSEC_PER_SEC + d mod NSEC_PER_SEC = d" by simp
  then show ?thesis
    using assms by (simp add: duration_from_spec_def spec_from_duration_def as_secs_def subsec_nanos_def as_u64_def)
qed

theorem duration_roundtrip_wraps_witness:
  "duration_from_spec (spec_from_duration (2 ^ 64 + 5)) = Ok 5"
  using duration_roundtrip_wraps [of "2 ^ 64 + 5"] by (simp add: in_i64_def NSEC_PER_SEC_def)

end
