(* ===== verification/Path.thy ===== *)
theory Path
  imports Prelude
begin

text \<open>
  The path library (libraries/path/src/path.rs) on strings of single-byte characters, where the
  byte length the code slices by is the number of characters. The first \<^verbatim>\<open>option\<close> of a result type
  is the panic (a failed \<^verbatim>\<open>debug_assert\<close>, an \<^verbatim>\<open>unwrap\<close> of nothing, a slice out of range); functions
  whose indices are in range on every path have none.
\<close>

definition SEPARATOR :: char where "SEPARATOR = CHR ''/''"
definition DOT :: char where "DOT = CHR ''.''"
definition ROOT_STR :: string where "ROOT_STR = ''/''"
definition DOT_STR :: string where "DOT_STR = ''.''"
definition NUL :: char where "NUL = CHR 0x00"

section \<open>Predicates\<close>

definition is_separator :: "char \<Rightarrow> bool" where
  "is_separator c = (c = SEPARATOR)"

definition ends_in_separator :: "string \<Rightarrow> bool" where
  "ends_in_separator path = (path \<noteq> [] \<and> last path = SEPARATOR)"

definition starts_with_separator :: "string \<Rightarrow> bool" where
  "starts_with_separator path = (path \<noteq> [] \<and> hd path = SEPARATOR)"

definition is_path_rooted :: "string \<Rightarrow> bool" where
  "is_path_rooted path = starts_with_separator path"

definition is_partially_qualified :: "string \<Rightarrow> bool" where
  "is_partially_qualified path = (\<not> is_path_rooted path)"

definition is_path_fully_qualified :: "string \<Rightarrow> bool" where
  "is_path_fully_qualified path = (\<not> is_partially_qualified path)"

definition get_root_length :: "string \<Rightarrow> nat" where
  "get_root_length path = (if starts_with_separator path then 1 else 0)"

definition is_root_internal :: "string \<Rightarrow> bool" where
  "is_root_internal path = (length path = get_root_length path)"

definition is_root :: "string \<Rightarrow> bool" where
  "is_root path = (path \<noteq> [] \<and> is_root_internal path)"

definition trim_end_separator :: "string \<Rightarrow> string" where
  "trim_end_separator path =
     (if ends_in_separator path \<and> \<not> is_root_internal path then take (length path - 1) path else path)"

definition get_path_root :: "string \<Rightarrow> string option" where
  "get_path_root path = (if path = [] \<or> \<not> is_path_rooted path then None else Some ROOT_STR)"

definition relative_to_root :: "string \<Rightarrow> string" where
  "relative_to_root path =
     (if \<not> is_path_fully_qualified path then path else drop (get_root_length path) path)"

section \<open>File names and extensions\<close>

text \<open>\<^verbatim>\<open>Iterator::position\<close> and \<^verbatim>\<open>str::rfind\<close>.\<close>

fun find_pos :: "(char \<Rightarrow> bool) \<Rightarrow> string \<Rightarrow> nat option" where
  "find_pos p [] = None"
| "find_pos p (c # cs) = (if p c then Some 0 else map_option Suc (find_pos p cs))"

definition rfind :: "char \<Rightarrow> string \<Rightarrow> nat option" where
  "rfind d s = map_option (\<lambda>k. length s - 1 - k) (find_pos (\<lambda>c. c = d) (rev s))"

definition has_extension :: "string \<Rightarrow> bool" where
  "has_extension path = list_ex (\<lambda>c. c = DOT) (takeWhile (\<lambda>c. \<not> is_separator c) (rev path))"

definition get_extension :: "string \<Rightarrow> string option" where
  "get_extension path =
     (case find_pos (\<lambda>c. c = DOT) (takeWhile (\<lambda>c. \<not> is_separator c) (rev path)) of
        Some dot \<Rightarrow> Some (drop (length path - dot) path)
      | None \<Rightarrow> None)"

definition index_of_filename :: "string \<Rightarrow> nat" where
  "index_of_filename path =
     (if path = [] then 0
      else (case find_pos is_separator (rev path) of Some pos \<Rightarrow> length path - pos | None \<Rightarrow> 0))"

definition get_filename :: "string \<Rightarrow> string" where
  "get_filename path = (let pos = index_of_filename path in if pos \<le> 0 then path else drop pos path)"

definition get_filename_without_extension :: "string \<Rightarrow> string" where
  "get_filename_without_extension path =
     (let filename = get_filename path
      in case rfind DOT filename of Some dot \<Rightarrow> take dot filename | None \<Rightarrow> filename)"

text \<open>The two scans of \<^verbatim>\<open>get_directory_name_offset\<close>: the loop lowers \<^verbatim>\<open>end\<close> while the characters, read
  from the back, satisfy the test; the character that stops it is consumed too.\<close>

fun lower_end :: "(char \<Rightarrow> bool) \<Rightarrow> nat \<Rightarrow> nat \<Rightarrow> string \<Rightarrow> nat \<times> string" where
  "lower_end p root_len e [] = (e, [])"
| "lower_end p root_len e (c # it) =
     (if e > root_len \<and> p c then lower_end p root_len (e - 1) it else (e, it))"

definition get_directory_name_offset :: "string \<Rightarrow> int" where
  "get_directory_name_offset path =
     (let len = length path; root_len = get_root_length path
      in if len \<le> root_len then -1
         else let (e, it) = lower_end (\<lambda>c. \<not> is_separator c) root_len (len - 1) (rev path);
                  (e, it) = lower_end is_separator root_len e (drop 1 it)
              in int e)"

definition get_directory_name :: "string \<Rightarrow> string option" where
  "get_directory_name path =
     (if path = [] then None
      else let e = get_directory_name_offset path in if e < 0 then None else Some (take (nat e) path))"

section \<open>Joining\<close>

definition join_internal :: "string \<Rightarrow> string \<Rightarrow> string option" where
  "join_internal first second = do {
     assert_that (first \<noteq> []);
     assert_that (second \<noteq> []);
     assert_that (is_partially_qualified second);
     Some (first
           @ (if \<not> ends_in_separator first \<and> \<not> starts_with_separator second then [SEPARATOR] else [])
           @ second) }"

definition combine_internal :: "string \<Rightarrow> string \<Rightarrow> string option" where
  "combine_internal first second =
     (if first = [] then Some second
      else if second = [] then Some first
      else if is_path_rooted second then Some second
      else join_internal first second)"

definition combine :: "string \<Rightarrow> string \<Rightarrow> string option" where
  "combine path1 path2 = combine_internal path1 path2"

definition change_extension :: "string \<Rightarrow> string \<Rightarrow> string option option" where
  "change_extension path extension =
     (if path = [] then Some None
      else let filename = get_filename_without_extension path;
               directory = get_directory_name path;
               changed = (if extension = [] then filename else filename @ [DOT] @ extension)
           in case directory of
                Some directory \<Rightarrow> do { p \<leftarrow> combine directory changed; Some (Some p) }
              | None \<Rightarrow> Some (Some changed))"

section \<open>Relative segments\<close>

text \<open>The walk back over the output when a parent segment is met: the index it stops at and, when it
  stops at a separator, the length to truncate to.\<close>

fun scan_back :: "nat \<Rightarrow> bool \<Rightarrow> nat \<Rightarrow> string \<Rightarrow> nat \<times> nat option" where
  "scan_back skip at_end si [] = (si, None)"
| "scan_back skip at_end si (c # cs) =
     (let si = si - 1
      in if si < skip then (si, None)
         else if is_separator c
              then (si, Some (if at_end \<and> si = skip then si + 1 else si))
              else scan_back skip at_end si cs)"

definition pop_segment :: "nat \<Rightarrow> bool \<Rightarrow> string \<Rightarrow> string" where
  "pop_segment skip at_end sb =
     (let (si, cut) = scan_back skip at_end (length sb) (rev sb);
          sb = (case cut of Some new_len \<Rightarrow> take new_len sb | None \<Rightarrow> sb)
      in if si < skip then take skip sb else sb)"

definition char_or_nul :: "string \<Rightarrow> char" where
  "char_or_nul cs = (case cs of [] \<Rightarrow> NUL | c # _ \<Rightarrow> c)"

fun segments_loop :: "nat \<Rightarrow> nat \<Rightarrow> nat \<Rightarrow> string \<Rightarrow> string \<Rightarrow> string option" where
  "segments_loop skip path_len i [] sb = Some sb"
| "segments_loop skip path_len i (c # enu) sb =
     (if is_separator c \<and> i + 1 < path_len
      then (case enu of
          [] \<Rightarrow> None
        | nxt # cloned_it \<Rightarrow>
            if is_separator nxt then segments_loop skip path_len (i + 1) enu sb
            else if (i + 2 = path_len \<or> is_separator (char_or_nul cloned_it)) \<and> nxt = DOT
            then segments_loop skip path_len (i + 2) cloned_it sb
            else if i + 2 < path_len
                    \<and> (i + 3 = path_len \<or> is_separator (char_or_nul (drop 1 cloned_it)))
                    \<and> nxt = DOT \<and> char_or_nul cloned_it = DOT
            then segments_loop skip path_len (i + 3) (drop 1 cloned_it)
                   (pop_segment skip (i + 3 \<ge> path_len) sb)
            else segments_loop skip path_len (i + 1) enu (sb @ [c]))
      else segments_loop skip path_len (i + 1) enu (sb @ [c]))"

definition remove_relative_segments_internal :: "string \<Rightarrow> string option option" where
  "remove_relative_segments_internal path =
     (let root_length = get_root_length path;
          path_len = length path;
          skip = (if root_length = 1 \<and> is_separator (hd path) then root_length - 1 else root_length);
          sb = (if skip > 0 then take skip path else [])
      in do {
        sb \<leftarrow> segments_loop skip path_len 0 (drop skip path) sb;
        if length sb = path_len then Some None
        else Some (Some (if skip \<noteq> root_length \<and> length sb < root_length \<and> root_length = 1
                         then sb @ [SEPARATOR] else sb)) })"

definition remove_relative_segments :: "string \<Rightarrow> string option" where
  "remove_relative_segments path = do {
     r \<leftarrow> remove_relative_segments_internal path;
     Some (case r of Some p \<Rightarrow> p | None \<Rightarrow> path) }"

definition get_full_path_internal :: "string \<Rightarrow> string option \<Rightarrow> string option" where
  "get_full_path_internal path cwd =
     (if is_path_rooted path
      then do {
        collapsed \<leftarrow> remove_relative_segments path;
        Some (if length collapsed = 0 then ROOT_STR else collapsed) }
      else (case cwd of None \<Rightarrow> Some path | Some cwd \<Rightarrow> combine cwd path))"

definition get_full_path :: "string \<Rightarrow> string option \<Rightarrow> string option option" where
  "get_full_path path cwd =
     (if path = [] then Some cwd
      else do { p \<leftarrow> get_full_path_internal path cwd; Some (Some p) })"

section \<open>Normalisation\<close>

text \<open>The first loop only looks for a doubled separator; its flag starts false and is only ever set
  to false.\<close>

fun normalized_scan :: "string \<Rightarrow> bool \<Rightarrow> bool" where
  "normalized_scan [] normalized = normalized"
| "normalized_scan (c # it) normalized =
     (if is_separator c
      then (case it of
          [] \<Rightarrow> normalized_scan it normalized
        | nxt # it' \<Rightarrow> if is_separator nxt then False else normalized_scan it' normalized)
      else normalized_scan it normalized)"

fun normalize_loop :: "string \<Rightarrow> string" where
  "normalize_loop [] = []"
| "normalize_loop (c # it) =
     (if is_separator c
      then (case it of
          [] \<Rightarrow> c # normalize_loop it
        | nxt # it' \<Rightarrow> if is_separator nxt then normalize_loop it' else c # normalize_loop it')
      else c # normalize_loop it)"

definition normalize_path :: "string \<Rightarrow> string option" where
  "normalize_path path =
     (if path = [] then None
      else if normalized_scan path False then Some path
      else Some (normalize_loop path))"

section \<open>Relative paths\<close>

definition effective_length :: "string \<Rightarrow> nat" where
  "effective_length path = (if ends_in_separator path then length path - 1 else length path)"

fun equal_loop :: "string \<Rightarrow> string \<Rightarrow> nat \<Rightarrow> nat" where
  "equal_loop (a # as) (b # bs) common_len =
     (if a = b then equal_loop as bs (common_len + 1) else common_len)"
| "equal_loop _ _ common_len = common_len"

definition equal_starting_character_count :: "string \<Rightarrow> string \<Rightarrow> nat" where
  "equal_starting_character_count first second =
     (if first = [] \<or> second = [] then 0 else equal_loop first second 0)"

definition nth_char :: "string \<Rightarrow> nat \<Rightarrow> char option" where
  "nth_char s n = (if n < length s then Some (s ! n) else None)"

fun separator_loop :: "string \<Rightarrow> nat \<Rightarrow> nat" where
  "separator_loop it common_chars =
     (if common_chars > 0
      then (case it of
          [] \<Rightarrow> common_chars
        | c # it' \<Rightarrow> separator_loop it' (if is_separator c then common_chars - 1 else common_chars))
      else common_chars)"

definition get_common_length :: "string \<Rightarrow> string \<Rightarrow> nat option" where
  "get_common_length first second =
     (let common_chars = equal_starting_character_count first second;
          first_len = length first; second_len = length second
      in if common_chars = 0 then Some 0
         else do {
           stop \<leftarrow> (if common_chars = first_len \<and> common_chars = second_len then Some True
                    else do { c \<leftarrow> nth_char second common_chars; Some (is_separator c) });
           if stop then Some common_chars
           else do {
             stop \<leftarrow> (if common_chars = second_len
                      then do { c \<leftarrow> nth_char first common_chars; Some (is_separator c) }
                      else Some False);
             if stop then Some common_chars
             else Some (separator_loop (drop (first_len - common_chars + 1) (rev first)) common_chars) } })"

fun up_loop :: "string \<Rightarrow> string" where
  "up_loop [] = []"
| "up_loop (c # cs) = (if is_separator c then [SEPARATOR] @ ''..'' @ up_loop cs else up_loop cs)"

definition slice :: "string \<Rightarrow> nat \<Rightarrow> nat \<Rightarrow> string option" where
  "slice s a b = (if a \<le> b \<and> b \<le> length s then Some (take (b - a) (drop a s)) else None)"

definition get_relative_path_internal :: "string \<Rightarrow> string \<Rightarrow> string option" where
  "get_relative_path_internal relative_to path = do {
     common_len \<leftarrow> get_common_length relative_to path;
     if common_len = 0 then Some path
     else (let relative_to_len = effective_length relative_to; path_len = effective_length path
       in if relative_to_len = path_len \<and> common_len \<ge> relative_to_len then Some DOT_STR
          else do {
            (sb, common_len) \<leftarrow>
              (if common_len < relative_to_len
               then Some (''..'' @ up_loop (drop (common_len + 1) relative_to), common_len)
               else do {
                 c \<leftarrow> nth_char path common_len;
                 Some ([], if is_separator c then common_len + 1 else common_len) });
            assert_that (common_len \<le> path_len);
            let diff_len = path_len - common_len + (if ends_in_separator path then 1 else 0);
            if diff_len > 0
            then do {
              part \<leftarrow> slice path common_len (common_len + diff_len);
              Some (sb @ (if sb \<noteq> [] then [SEPARATOR] else []) @ part) }
            else Some sb }) }"

definition get_relative_path :: "string \<Rightarrow> string \<Rightarrow> string option option" where
  "get_relative_path relative_to path =
     (if relative_to = [] \<or> path = [] \<or> is_partially_qualified relative_to \<or> is_partially_qualified path
      then Some None
      else do { p \<leftarrow> get_relative_path_internal relative_to path; Some (Some p) })"

section \<open>Lemmas\<close>

lemma find_pos_takeWhile:
  "find_pos p s = (if \<exists>c\<in>set s. p c then Some (length (takeWhile (\<lambda>c. \<not> p c) s)) else None)"
  by (induction s) auto

lemma rooted_append: "p \<noteq> [] \<Longrightarrow> is_path_rooted (p @ q) = is_path_rooted p"
  by (simp add: is_path_rooted_def starts_with_separator_def)

lemma ends_append: "q \<noteq> [] \<Longrightarrow> ends_in_separator (p @ q) = ends_in_separator q"
  by (simp add: ends_in_separator_def)

definition glue :: "string \<Rightarrow> string" where
  "glue p = p @ (if ends_in_separator p then [] else [SEPARATOR])"

lemma combine_eq:
  "combine p q =
    (if p = [] then Some q else if q = [] then Some p else if is_path_rooted q then Some q else Some (glue p @ q))"
  by (auto simp: combine_def combine_internal_def join_internal_def glue_def is_partially_qualified_def is_path_rooted_def)

lemma rev_split:
  "path = rev (dropWhile p (rev path)) @ rev (takeWhile p (rev path))"
  by (metis rev_append rev_rev_ident takeWhile_dropWhile_id)

lemma drop_rev_takeWhile: "drop (length path - length (takeWhile p (rev path))) path = rev (takeWhile p (rev path))"
  by (metis (no_types, lifting) append_take_drop_id length_rev rev_split rev_take rev_rev_ident takeWhile_eq_take length_takeWhile_le)

lemma takeWhile_shorter: "\<exists>c\<in>set s. \<not> p c \<Longrightarrow> length (takeWhile p s) < length s"
  by (induction s) auto

lemma takeWhile_first: "d \<notin> set a \<Longrightarrow> takeWhile (\<lambda>c. c \<noteq> d) (a @ d # b) = a"
  by (induction a) auto

lemma get_filename_eq: "get_filename path = rev (takeWhile (\<lambda>c. \<not> is_separator c) (rev path))"
proof (cases "\<exists>c\<in>set path. is_separator c")
  case True
  have "length (takeWhile (\<lambda>c. \<not> is_separator c) (rev path)) < length (rev path)"
    using True by (intro takeWhile_shorter) auto
  then show ?thesis
    using True drop_rev_takeWhile [of path "\<lambda>c. \<not> is_separator c"]
    by (auto simp: get_filename_def index_of_filename_def find_pos_takeWhile Let_def)
next
  case False
  then have tw: "takeWhile (\<lambda>c. \<not> is_separator c) (rev path) = rev path"
    by (subst takeWhile_eq_all_conv) simp
  show ?thesis
    unfolding tw using False by (auto simp: get_filename_def index_of_filename_def find_pos_takeWhile Let_def)
qed

section \<open>Properties\<close>



text \<open>The file name of a path is its last part: it has no separator, and what is in front of it is
  empty or ends in a separator.\<close>

theorem get_filename_correct:
  "\<exists>dir. path = dir @ get_filename path \<and> list_all (\<lambda>c. \<not> is_separator c) (get_filename path)
     \<and> (dir = [] \<or> ends_in_separator dir)"
proof -
  let ?p = "\<lambda>c. \<not> is_separator c"
  let ?dir = "rev (dropWhile ?p (rev path))"
  have "path = ?dir @ get_filename path" by (simp only: get_filename_eq rev_split [symmetric])
  moreover have "list_all (\<lambda>c. \<not> is_separator c) (get_filename path)"
    by (auto simp: get_filename_eq list_all_iff dest: set_takeWhileD)
  moreover have "?dir = [] \<or> ends_in_separator ?dir"
    using hd_dropWhile [of ?p "rev path"] by (auto simp: ends_in_separator_def last_rev is_separator_def)
  ultimately show ?thesis by blast
qed



text \<open>\<^verbatim>\<open>get_relative_path\<close> panics for a rooted target that is a proper prefix of the directory, as in
  \<^verbatim>\<open>/a/b\<close> and \<^verbatim>\<open>/a\<close>: the character behind the common part is unwrapped although there is none.\<close>

lemma equal_loop_prefix: "equal_loop (q @ r) q k = k + length q"
  by (induction q arbitrary: k) (auto elim: equal_loop.elims, (cases r; simp)?)

theorem get_relative_path_prefix_panics:
  assumes "is_path_rooted path" and "rest \<noteq> []"
  shows "get_relative_path (path @ rest) path = None"
proof -
  have ne: "path \<noteq> []" using assms(1) by (auto simp: is_path_rooted_def starts_with_separator_def)
  have "equal_starting_character_count (path @ rest) path = length path"
    using ne by (simp add: equal_starting_character_count_def equal_loop_prefix)
  then have "get_common_length (path @ rest) path = None"
    using assms(2) ne by (simp add: get_common_length_def nth_char_def)
  then show ?thesis
    using assms ne
    by (simp add: get_relative_path_def get_relative_path_internal_def is_partially_qualified_def rooted_append)
qed

theorem get_relative_path_prefix_panics_witness:
  "get_relative_path ''/a/b'' ''/a'' = None"
  using get_relative_path_prefix_panics [of "''/a''" "''/b''"]
  by (simp add: is_path_rooted_def starts_with_separator_def SEPARATOR_def)

section \<open>Segments\<close>

text \<open>A rooted path as a list of segments, and what resolving the dot segments means on it.\<close>

definition flat :: "string list \<Rightarrow> string" where
  "flat segs = concat (map (\<lambda>s. SEPARATOR # s) segs)"

fun resolve_segments :: "string list \<Rightarrow> string list \<Rightarrow> string list" where
  "resolve_segments st [] = st"
| "resolve_segments st (s # segs) =
     resolve_segments (if s = ''.'' then st else if s = ''..'' then butlast st else st @ [s]) segs"

definition render :: "string list \<Rightarrow> string" where
  "render segs = (if segs = [] then ROOT_STR else flat segs)"

definition segment :: "string \<Rightarrow> bool" where
  "segment s \<longleftrightarrow> s \<noteq> [] \<and> SEPARATOR \<notin> set s"

lemma flat_simps [simp]: "flat [] = []" "flat (s # segs) = SEPARATOR # s @ flat segs"
  "flat (st @ [s]) = flat st @ SEPARATOR # s"
  by (simp_all add: flat_def)

lemma flat_length: "segs \<noteq> [] \<Longrightarrow> 0 < length (flat segs)"
  by (cases segs) auto

lemma segments_loop_push:
  "SEPARATOR \<notin> set s \<Longrightarrow> segments_loop 0 L i (s @ r) sb = segments_loop 0 L (i + length s) r (sb @ s)"
  by (induction s arbitrary: i sb) (auto simp: is_separator_def)

lemma scan_back_segment:
  "SEPARATOR \<notin> set y \<Longrightarrow> scan_back 0 e (Suc (n + length y)) (y @ SEPARATOR # z) = (n, Some (if e \<and> n = 0 then n + 1 else n))"
  by (induction y) (auto simp: is_separator_def Let_def)

lemma scan_back_none: "SEPARATOR \<notin> set y \<Longrightarrow> scan_back 0 e (length y) y = (0, None)"
  by (induction y) (auto simp: is_separator_def Let_def)

lemma pop_segment_flat:
  assumes "\<forall>s\<in>set st. segment s"
  shows "pop_segment 0 e (flat st) = (if e \<and> length st = 1 then ROOT_STR else flat (butlast st))"
proof (cases st rule: rev_cases)
  case Nil
  then show ?thesis by (simp add: pop_segment_def)
next
  case (snoc st' x)
  have x: "SEPARATOR \<notin> set (rev x)" using assms snoc by (simp add: segment_def)
  have "flat st' = [] \<longleftrightarrow> st' = []" by (cases st') auto
  then show ?thesis
    using scan_back_segment [OF x, of e "length (flat st')" "rev (flat st')"] snoc
    by (auto simp: pop_segment_def ROOT_STR_def SEPARATOR_def)
qed

lemma char_or_nul_flat: "segs \<noteq> [] \<Longrightarrow> is_separator (char_or_nul (flat segs))"
  by (cases segs) (simp_all add: char_or_nul_def is_separator_def)

lemma segments_loop_dot:
  "i + length (flat (''.'' # segs)) = L \<Longrightarrow>
   segments_loop 0 L i (flat (''.'' # segs)) sb = segments_loop 0 L (i + 2) (flat segs) sb"
  using char_or_nul_flat [of segs] by (cases "segs = []") (auto simp: is_separator_def DOT_def SEPARATOR_def)

lemma segments_loop_dots:
  "i + length (flat (''..'' # segs)) = L \<Longrightarrow>
   segments_loop 0 L i (flat (''..'' # segs)) sb =
     segments_loop 0 L (i + 3) (flat segs) (pop_segment 0 (segs = []) sb)"
  using char_or_nul_flat [of segs] flat_length [of segs]
  by (cases "segs = []") (auto simp: is_separator_def DOT_def SEPARATOR_def char_or_nul_def [of "_ # _"])

lemma segments_loop_other:
  assumes "segment s" "s \<noteq> ''.''" "s \<noteq> ''..''" "i + length (flat (s # segs)) = L"
  shows "segments_loop 0 L i (flat (s # segs)) sb = segments_loop 0 L (i + 1 + length s) (flat segs) (sb @ SEPARATOR # s)"
proof -
  obtain c s' where s: "s = c # s'" and c: "c \<noteq> SEPARATOR" "SEPARATOR \<notin> set s'"
    using assms(1) by (cases s) (auto simp: segment_def)
  have no_dot: "\<not> ((i + 2 = L \<or> is_separator (char_or_nul (s' @ flat segs))) \<and> c = DOT)"
    using assms(2,4) s c by (cases s') (auto simp: char_or_nul_def is_separator_def DOT_def)
  have no_dots: "\<not> (i + 2 < L \<and> (i + 3 = L \<or> is_separator (char_or_nul (drop 1 (s' @ flat segs))))
      \<and> c = DOT \<and> char_or_nul (s' @ flat segs) = DOT)"
  proof (cases s')
    case Nil
    then show ?thesis using assms(2) s by (auto simp: DOT_def)
  next
    case (Cons d s'')
    then show ?thesis using assms(3,4) s c by (cases s'') (auto simp: char_or_nul_def is_separator_def DOT_def)
  qed
  have "segments_loop 0 L i (flat (s # segs)) sb = segments_loop 0 L (i + 1) (s @ flat segs) (sb @ [SEPARATOR])"
    using no_dot no_dots c assms(4) by (auto simp: s is_separator_def)
  also have "\<dots> = segments_loop 0 L (i + 1 + length s) (flat segs) ((sb @ [SEPARATOR]) @ s)"
    by (rule segments_loop_push) (use s c in auto)
  finally show ?thesis by simp
qed

lemma resolve_length:
  assumes "\<forall>s\<in>set segs. segment s"
  shows "length (flat (resolve_segments st segs)) \<le> length (flat st) + length (flat segs)
    \<and> (length (flat (resolve_segments st segs)) = length (flat st) + length (flat segs) \<longrightarrow>
        resolve_segments st segs = st @ segs)"
  using assms
proof (induction segs arbitrary: st)
  case (Cons s segs)
  have bl: "length (flat (butlast st)) \<le> length (flat st)" by (cases st rule: rev_cases) auto
  let ?st = "if s = ''.'' then st else if s = ''..'' then butlast st else st @ [s]"
  show ?case
    using Cons.IH [of ?st] Cons.prems bl by (auto split: if_splits)
qed simp

lemma segments_loop_resolves:
  assumes "\<forall>s\<in>set segs. segment s" "\<forall>s\<in>set st. segment s" "i + length (flat segs) = L"
  shows "\<exists>sb. segments_loop 0 L i (flat segs) (flat st) = Some sb
    \<and> (sb = flat (resolve_segments st segs) \<or> sb = ROOT_STR \<and> resolve_segments st segs = [] \<and> segs \<noteq> [])"
  using assms
proof (induction segs arbitrary: st i)
  case (Cons s segs)
  have st: "\<forall>x\<in>set (butlast st). segment x" "\<forall>x\<in>set (st @ [s]). segment x"
    using Cons.prems by (auto dest: in_set_butlastD)
  consider "s = ''.''" | "s = ''..''" "segs \<noteq> []" | "s = ''..''" "segs = []" | "s \<noteq> ''.''" "s \<noteq> ''..''" by blast
  then show ?case
  proof cases
    case 1
    then show ?thesis
      using Cons.IH [of st "i + 2"] Cons.prems by (simp only: segments_loop_dot) auto
  next
    case 2
    then show ?thesis
      using Cons.IH [of "butlast st" "i + 3"] Cons.prems st pop_segment_flat [of st False]
      by (simp only: segments_loop_dots) auto
  next
    case 3
    then show ?thesis
      using Cons.prems pop_segment_flat [of st True] by (cases st rule: rev_cases) (auto simp: segments_loop_dots simp del: flat_simps(2))
  next
    case 4
    then show ?thesis
      using Cons.IH [of "st @ [s]" "i + 1 + length s"] Cons.prems st
        segments_loop_other [of s i segs L "flat st"] by auto
  qed
qed auto

section \<open>Resolved paths\<close>



text \<open>The resolution is right only from the root: in a relative path a leading directory survives the
  \<^verbatim>\<open>..\<close> behind it, because the walk back over the output stops at index zero without cutting.\<close>

theorem relative_parent_ignored:
  assumes "segment s" and "segment r" and "r \<noteq> ''.''" and "r \<noteq> ''..''"
  shows "remove_relative_segments (s @ ''/../'' @ r) = Some (s @ ''/'' @ r)"
proof -
  let ?p = "s @ flat [''..'', r]"
  have p: "s @ ''/../'' @ r = ?p" by (simp add: SEPARATOR_def)
  have s: "SEPARATOR \<notin> set s" "s \<noteq> []" using assms(1) by (simp_all add: segment_def)
  have pop: "pop_segment 0 False s = s"
    using scan_back_none [of "rev s" False] s(1) by (simp add: pop_segment_def)
  have "segments_loop 0 (length ?p) 0 ?p [] = segments_loop 0 (length ?p) (length s) (flat [''..'', r]) s"
    using segments_loop_push [OF s(1), of "length ?p" 0 "flat [''..'', r]" "[]"] by simp
  also have "\<dots> = segments_loop 0 (length ?p) (length s + 3) (flat [r]) s"
    using segments_loop_dots [of "length s" "[r]" "length ?p" s] pop by simp
  also have "\<dots> = Some (s @ SEPARATOR # r)"
    using segments_loop_other [OF assms(2,3,4), of "length s + 3" "[]" "length ?p" s] by simp
  finally have loop: "segments_loop 0 (length ?p) 0 ?p [] = Some (s @ SEPARATOR # r)" .
  have "get_root_length ?p = 0" using s by (cases s) (auto simp: get_root_length_def starts_with_separator_def)
  then show ?thesis
    unfolding p using loop by (simp add: remove_relative_segments_def remove_relative_segments_internal_def SEPARATOR_def)
qed

theorem relative_parent_ignored_witness:
  "remove_relative_segments ''a/../b'' = Some ''a/b''"
  using relative_parent_ignored [of "''a''" "''b''"] by (simp add: segment_def SEPARATOR_def)

text \<open>The character behind a separator is consumed by the test for a doubled separator and lost.\<close>

theorem normalize_path_drops:
  assumes "\<not> is_separator c"
  shows "normalize_path (SEPARATOR # c # cs) = Some (SEPARATOR # normalize_loop cs)"
proof -
  have "normalized_scan path False = False" for path
    by (induction path False rule: normalized_scan.induct) (auto split: list.splits)
  then show ?thesis using assms by (simp add: normalize_path_def is_separator_def)
qed

theorem normalize_path_drops_witness: "normalize_path ''/ab'' = Some ''/b''"
  using normalize_path_drops [of "CHR ''a''" "''b''"] by (simp add: is_separator_def SEPARATOR_def)

end
