(* ===== verification/Fs_Tree.thy ===== *)
theory Fs_Tree
  imports Errno Timing Path
begin

text \<open>
  The directory tree of the virtual file system (libraries/filesystem-abstractions/src/tree.rs,
  inode.rs, lib.rs). A node is shared through \<^verbatim>\<open>Arc\<close>: the model keeps an explicit store from node
  identities to nodes, so that two names of one node alias. A weak reference upgrades while its node
  is in the store; \<^verbatim>\<open>node_drop\<close> is the step in which the last strong reference goes away. The inodes
  are trait objects of other crates, a record of functions over their own state. Nodes are locked
  one operation at a time, so the spin locks do not appear; log messages are left out.
\<close>

section \<open>Errors, entries, statistics\<close>

datatype FileSystemError =
    Unimplemented | Unknown | InternalError | UnexpectedEof | WriteZero | PathNameLengthExceeded
  | PathContainsInvalidCharacter | FileSystemCorrupted | InvalidInput | NotFound | AlreadyExists
  | DirectoryNotEmpty | SpaceNotEnough | NotAFile | NotADirectory | NotALink | LinkTooDepth
  | NotPermitted | ReadOnly

fun to_errno :: "FileSystemError \<Rightarrow> ErrNo" where
  "to_errno UnexpectedEof = ResourceTemporarilyUnavailable"
| "to_errno WriteZero = InvalidArgument"
| "to_errno PathNameLengthExceeded = FileNameTooLong"
| "to_errno PathContainsInvalidCharacter = InvalidArgument"
| "to_errno InvalidInput = InvalidArgument"
| "to_errno NotFound = NoSuchFileOrDirectory"
| "to_errno AlreadyExists = FileExists"
| "to_errno DirectoryNotEmpty = DirectoryNotEmpty_errno"
| "to_errno SpaceNotEnough = NoSpaceLeftOnDevice"
| "to_errno NotAFile = InvalidArgument"
| "to_errno NotADirectory = NotADirectory_errno"
| "to_errno NotALink = InvalidArgument"
| "to_errno LinkTooDepth = TooManyLevelsOfSymbolicLinks"
| "to_errno NotPermitted = OperationNotPermitted"
| "to_errno ReadOnly = ReadOnlyFileSystem"
| "to_errno _ = InvalidArgument"

datatype MountError = InvalidInput_mount | NotADirectory_mount | FileExists_mount
  | FileNotExists_mount | AlreadyMounted

fun to_filesystem_error :: "MountError \<Rightarrow> FileSystemError" where
  "to_filesystem_error InvalidInput_mount = InvalidInput"
| "to_filesystem_error NotADirectory_mount = NotADirectory"
| "to_filesystem_error FileExists_mount = AlreadyExists"
| "to_filesystem_error FileNotExists_mount = NotFound"
| "to_filesystem_error AlreadyMounted = InvalidInput"

fun to_syscall_error :: "MountError \<Rightarrow> SyscallResult" where
  "to_syscall_error InvalidInput_mount = Err InvalidArgument"
| "to_syscall_error NotADirectory_mount = Err NoSuchFileOrDirectory"
| "to_syscall_error FileExists_mount = Err FileExists"
| "to_syscall_error FileNotExists_mount = Err NoSuchFileOrDirectory"
| "to_syscall_error AlreadyMounted = Err DeviceOrResourceBusy"

datatype DirectoryEntryType = UnknownType | NamedPipe | CharDevice | Directory | BlockDevice | File | Symlink

definition MODE_NULL :: u32 where "MODE_NULL = 0"
definition MODE_FIFO :: u32 where "MODE_FIFO = 0x1000"
definition MODE_CHAR :: u32 where "MODE_CHAR = 0x2000"
definition MODE_DIR :: u32 where "MODE_DIR = 0x4000"
definition MODE_BLOCK :: u32 where "MODE_BLOCK = 0x6000"
definition MODE_FILE :: u32 where "MODE_FILE = 0x8000"
definition MODE_LINK :: u32 where "MODE_LINK = 0xA000"

fun statistics_mode :: "DirectoryEntryType \<Rightarrow> u32" where
  "statistics_mode UnknownType = MODE_NULL"
| "statistics_mode File = MODE_FILE"
| "statistics_mode Directory = MODE_DIR"
| "statistics_mode BlockDevice = MODE_BLOCK"
| "statistics_mode CharDevice = MODE_CHAR"
| "statistics_mode NamedPipe = MODE_FIFO"
| "statistics_mode Symlink = MODE_LINK"

record directory_entry =
  de_filename :: string
  de_entry_type :: DirectoryEntryType

record inode_metadata =
  im_filename :: string
  im_entry_type :: DirectoryEntryType
  im_size :: usize

record file_statistics =
  device_id :: u64
  inode_id :: u64
  st_mode :: u32
  link_count :: u32
  uid :: u32
  gid :: u32
  rdev :: u64
  st_size :: u64
  block_size :: u32
  block_count :: u64
  atime :: timespec
  mtime :: timespec
  ctime :: timespec

section \<open>Ordered maps\<close>

text \<open>A \<^verbatim>\<open>BTreeMap\<close> keyed by strings: an association list in the order of the keys.\<close>

fun str_less :: "string \<Rightarrow> string \<Rightarrow> bool" where
  "str_less [] [] = False"
| "str_less [] (b # bs) = True"
| "str_less (a # as) [] = False"
| "str_less (a # as) (b # bs) =
     (if (of_char a :: nat) < of_char b then True else if a = b then str_less as bs else False)"

type_synonym 'v btree = "(string \<times> 'v) list"

fun bt_get :: "string \<Rightarrow> 'v btree \<Rightarrow> 'v option" where
  "bt_get k [] = None"
| "bt_get k ((k', v) # m) = (if k = k' then Some v else bt_get k m)"

fun bt_insert :: "string \<Rightarrow> 'v \<Rightarrow> 'v btree \<Rightarrow> 'v btree" where
  "bt_insert k v [] = [(k, v)]"
| "bt_insert k v ((k', v') # m) =
     (if k = k' then (k, v) # m
      else if str_less k k' then (k, v) # (k', v') # m
      else (k', v') # bt_insert k v m)"

fun bt_remove :: "string \<Rightarrow> 'v btree \<Rightarrow> 'v btree" where
  "bt_remove k [] = []"
| "bt_remove k ((k', v) # m) = (if k = k' then m else (k', v) # bt_remove k m)"

section \<open>Inodes\<close>

type_synonym ('a, 's) fs_op = "'s \<Rightarrow> ('a, FileSystemError) outcome \<times> 's"

record ('i, 's) iinode =
  in_metadata :: "'i \<Rightarrow> 's \<Rightarrow> inode_metadata"
  in_readat :: "'i \<Rightarrow> usize \<Rightarrow> u8 list \<Rightarrow> (usize \<times> u8 list, 's) fs_op"
  in_writeat :: "'i \<Rightarrow> usize \<Rightarrow> u8 list \<Rightarrow> (usize, 's) fs_op"
  in_mkdir :: "'i \<Rightarrow> string \<Rightarrow> ('i, 's) fs_op"
  in_rmdir :: "'i \<Rightarrow> string \<Rightarrow> (unit, 's) fs_op"
  in_remove :: "'i \<Rightarrow> string \<Rightarrow> (unit, 's) fs_op"
  in_touch :: "'i \<Rightarrow> string \<Rightarrow> ('i, 's) fs_op"
  in_read_cache_dir :: "'i \<Rightarrow> 'i btree \<Rightarrow> (directory_entry list \<times> 'i btree, 's) fs_op"
  in_lookup :: "'i \<Rightarrow> string \<Rightarrow> ('i, 's) fs_op"
  in_flush :: "'i \<Rightarrow> (unit, 's) fs_op"
  in_stat :: "'i \<Rightarrow> file_statistics \<Rightarrow> (file_statistics, 's) fs_op"
  in_hard_link :: "'i \<Rightarrow> string \<Rightarrow> 'i \<Rightarrow> (unit, 's) fs_op"
  in_soft_link :: "'i \<Rightarrow> string \<Rightarrow> string \<Rightarrow> ('i, 's) fs_op"
  in_resolve_link :: "'i \<Rightarrow> 's \<Rightarrow> string option"
  in_resize :: "'i \<Rightarrow> u64 \<Rightarrow> (u64, 's) fs_op"
  in_removing :: "'i \<Rightarrow> (unit, 's) fs_op"
  in_rename :: "'i \<Rightarrow> string \<Rightarrow> string \<Rightarrow> (unit, 's) fs_op"
  in_renaming :: "'i \<Rightarrow> string \<Rightarrow> (unit, 's) fs_op"

text \<open>The bodies the trait gives its methods.\<close>

definition default_inode :: "('i \<Rightarrow> 's \<Rightarrow> inode_metadata) \<Rightarrow> ('i, 's) iinode" where
  "default_inode md = \<lparr>
     in_metadata = md,
     in_readat = (\<lambda>_ _ _ s. (Err NotAFile, s)),
     in_writeat = (\<lambda>_ _ _ s. (Err NotAFile, s)),
     in_mkdir = (\<lambda>_ _ s. (Err NotADirectory, s)),
     in_rmdir = (\<lambda>_ _ s. (Err NotADirectory, s)),
     in_remove = (\<lambda>_ _ s. (Err NotADirectory, s)),
     in_touch = (\<lambda>_ _ s. (Err NotADirectory, s)),
     in_read_cache_dir = (\<lambda>_ _ s. (Err NotADirectory, s)),
     in_lookup = (\<lambda>_ _ s. (Err NotADirectory, s)),
     in_flush = (\<lambda>_ s. (Err Unimplemented, s)),
     in_stat = (\<lambda>_ _ s. (Err Unimplemented, s)),
     in_hard_link = (\<lambda>_ _ _ s. (Err Unimplemented, s)),
     in_soft_link = (\<lambda>_ _ _ s. (Err Unimplemented, s)),
     in_resolve_link = (\<lambda>_ _. None),
     in_resize = (\<lambda>_ _ s. (Err NotAFile, s)),
     in_removing = (\<lambda>_ s. (Ok (), s)),
     in_rename = (\<lambda>_ _ _ s. (Err Unimplemented, s)),
     in_renaming = (\<lambda>_ _ s. (Ok (), s))\<rparr>"

text \<open>A file system: its root inode and its name.\<close>

record 'i ifilesystem =
  fs_root_dir :: 'i
  fs_name :: string

section \<open>Nodes and the store\<close>

datatype 'i node_meta = Inode 'i | FileSystem "'i ifilesystem" | Link string | Empty

fun as_inode :: "'i node_meta \<Rightarrow> 'i option" where
  "as_inode (Inode i) = Some i"
| "as_inode (FileSystem fs) = Some (fs_root_dir fs)"
| "as_inode (Link target) = None"
| "as_inode Empty = None"

datatype 'i inner = Inner
  (meta: "'i node_meta")
  (node_name: string)
  (mounted: "nat btree")
  (opened: "nat btree")
  (children_cache: "'i btree")
  (shadowed: "'i inner option")

definition set_name :: "string \<Rightarrow> 'i inner \<Rightarrow> 'i inner" where
  "set_name n x = Inner (meta x) n (mounted x) (opened x) (children_cache x) (shadowed x)"

definition set_mounted :: "nat btree \<Rightarrow> 'i inner \<Rightarrow> 'i inner" where
  "set_mounted m x = Inner (meta x) (node_name x) m (opened x) (children_cache x) (shadowed x)"

definition set_opened :: "nat btree \<Rightarrow> 'i inner \<Rightarrow> 'i inner" where
  "set_opened m x = Inner (meta x) (node_name x) (mounted x) m (children_cache x) (shadowed x)"

definition set_cache :: "'i btree \<Rightarrow> 'i inner \<Rightarrow> 'i inner" where
  "set_cache m x = Inner (meta x) (node_name x) (mounted x) (opened x) m (shadowed x)"

definition set_shadowed :: "'i inner option \<Rightarrow> 'i inner \<Rightarrow> 'i inner" where
  "set_shadowed sh x = Inner (meta x) (node_name x) (mounted x) (opened x) (children_cache x) sh"

definition empty_inner :: "'i inner" where
  "empty_inner = Inner Empty [] [] [] [] None"

record 'i node =
  parent :: "nat option"
  inner :: "'i inner"

record ('i, 's) tree =
  nodes :: "nat \<Rightarrow> 'i node option"
  fresh :: nat
  inodes :: 's

text \<open>A handle of a live node always finds its node; the default is for the other numbers.\<close>

definition inner_of :: "('i, 's) tree \<Rightarrow> nat \<Rightarrow> 'i inner" where
  "inner_of st n = (case nodes st n of Some x \<Rightarrow> inner x | None \<Rightarrow> empty_inner)"

definition parent_of :: "('i, 's) tree \<Rightarrow> nat \<Rightarrow> nat option" where
  "parent_of st n = (case nodes st n of Some x \<Rightarrow> parent x | None \<Rightarrow> None)"

definition set_inner :: "nat \<Rightarrow> 'i inner \<Rightarrow> ('i, 's) tree \<Rightarrow> ('i, 's) tree" where
  "set_inner n x st =
     (case nodes st n of
        Some nd \<Rightarrow> st\<lparr>nodes := (nodes st)(n := Some (nd\<lparr>inner := x\<rparr>))\<rparr>
      | None \<Rightarrow> st)"

definition new_node :: "nat option \<Rightarrow> 'i inner \<Rightarrow> ('i, 's) tree \<Rightarrow> nat \<times> ('i, 's) tree" where
  "new_node p x st =
     (fresh st, st\<lparr>nodes := (nodes st)(fresh st := Some \<lparr>parent = p, inner = x\<rparr>), fresh := fresh st + 1\<rparr>)"

text \<open>\<^verbatim>\<open>Weak::upgrade\<close>.\<close>

definition upgrade :: "('i, 's) tree \<Rightarrow> nat \<Rightarrow> nat option" where
  "upgrade st n = (if nodes st n = None then None else Some n)"

definition on_inodes :: "('a, 's) fs_op \<Rightarrow> ('i, 's) tree \<Rightarrow> ('a, FileSystemError) outcome \<times> ('i, 's) tree" where
  "on_inodes f st = (let (r, s) = f (inodes st) in (r, st\<lparr>inodes := s\<rparr>))"

definition is_mounted :: "'i inner \<Rightarrow> string \<Rightarrow> bool" where
  "is_mounted x name = (bt_get name (mounted x) \<noteq> None)"

section \<open>Shadowing\<close>

definition shadow_with :: "nat \<Rightarrow> nat \<Rightarrow> ('i, 's) tree \<Rightarrow> bool \<times> ('i, 's) tree" where
  "shadow_with self new st =
     (if self = new then (False, st)
      else let new_inner = inner_of st new;
               st = set_inner new empty_inner st;
               previous_inner = inner_of st self;
               (node_inner, previous_inner) =
                 (if node_name new_inner \<noteq> node_name previous_inner
                  then (set_name (node_name previous_inner) new_inner,
                        set_name (node_name new_inner) previous_inner)
                  else (new_inner, previous_inner))
           in (True, set_inner self (set_shadowed (Some previous_inner) node_inner) st))"

text \<open>The cell taken out of the swapped contents is the box itself, so the node that is returned owns
  the contents that were on top, with nothing shadowed.\<close>

definition restore_shadow :: "nat \<Rightarrow> ('i, 's) tree \<Rightarrow> nat option \<times> ('i, 's) tree" where
  "restore_shadow self st =
     (let top = inner_of st self
      in case shadowed top of
           None \<Rightarrow> (None, st)
         | Some below \<Rightarrow>
             let (now, shadowed_inner) =
                   (if node_name top \<noteq> node_name below
                    then (set_name (node_name top) below, set_name (node_name below) top)
                    else (below, top));
                 (n, st) = new_node (parent_of st self) (set_shadowed None shadowed_inner)
                             (set_inner self now st)
             in (Some n, st))"

section \<open>Construction\<close>

definition from_empty :: "nat option \<Rightarrow> string \<Rightarrow> ('i, 's) tree \<Rightarrow> nat \<times> ('i, 's) tree" where
  "from_empty p name st = new_node p (Inner Empty name [] [] [] None) st"

definition from_inode ::
  "('i, 's) iinode \<Rightarrow> nat option \<Rightarrow> 'i \<Rightarrow> string option \<Rightarrow> ('i, 's) tree \<Rightarrow> nat \<times> ('i, 's) tree" where
  "from_inode I p inode name st =
     new_node p
       (Inner (Inode inode)
          (case name of Some n \<Rightarrow> n | None \<Rightarrow> im_filename (in_metadata I inode (inodes st)))
          [] [] [] None) st"

definition from_filesystem ::
  "nat option \<Rightarrow> 'i ifilesystem \<Rightarrow> string option \<Rightarrow> ('i, 's) tree \<Rightarrow> nat \<times> ('i, 's) tree" where
  "from_filesystem p fs name st =
     new_node p (Inner (FileSystem fs) (case name of Some n \<Rightarrow> n | None \<Rightarrow> fs_name fs) [] [] [] None) st"

definition from_symlink :: "nat option \<Rightarrow> string \<Rightarrow> string \<Rightarrow> ('i, 's) tree \<Rightarrow> nat \<times> ('i, 's) tree" where
  "from_symlink p name target st = new_node p (Inner (Link target) name [] [] [] None) st"

section \<open>Mounting\<close>

definition name_internal :: "('i, 's) tree \<Rightarrow> nat \<Rightarrow> string" where
  "name_internal st n = node_name (inner_of st n)"

definition mount_internal ::
  "nat \<Rightarrow> nat \<Rightarrow> string \<Rightarrow> ('i, 's) tree \<Rightarrow> (nat, MountError) outcome \<times> ('i, 's) tree" where
  "mount_internal self node name st =
     (let x = inner_of st self
      in case bt_get name (mounted x) of
           Some m \<Rightarrow> let (_, st) = shadow_with m node st in (Ok m, st)
         | None \<Rightarrow> (Ok node, set_inner self (set_mounted (bt_insert name node (mounted x)) x) st))"

definition mount_as ::
  "nat \<Rightarrow> nat \<Rightarrow> string option \<Rightarrow> ('i, 's) tree \<Rightarrow> (nat, MountError) outcome \<times> ('i, 's) tree" where
  "mount_as self node name st =
     mount_internal self node (case name of Some n \<Rightarrow> n | None \<Rightarrow> name_internal st node) st"

definition mount_empty ::
  "nat \<Rightarrow> string \<Rightarrow> ('i, 's) tree \<Rightarrow> (nat, MountError) outcome \<times> ('i, 's) tree" where
  "mount_empty self name st =
     (let (node, st) = from_empty (Some self) name st in mount_internal self node name st)"

definition umount_at ::
  "nat \<Rightarrow> string \<Rightarrow> ('i, 's) tree \<Rightarrow> (nat, MountError) outcome \<times> ('i, 's) tree" where
  "umount_at self name st =
     (let x = inner_of st self
      in case bt_get name (mounted x) of
           None \<Rightarrow> (Err FileNotExists_mount, st)
         | Some umounted \<Rightarrow>
             let st = set_inner self (set_mounted (bt_remove name (mounted x)) x) st
             in if shadowed (inner_of st umounted) \<noteq> None
                then let (_, st) = restore_shadow umounted st;
                         x = inner_of st self
                     in (Ok umounted,
                         set_inner self (set_mounted (bt_insert name umounted (mounted x)) x) st)
                else (Ok umounted, st))"

section \<open>Closing\<close>

definition removing ::
  "('i, 's) iinode \<Rightarrow> nat \<Rightarrow> ('i, 's) tree \<Rightarrow> (unit, FileSystemError) outcome \<times> ('i, 's) tree" where
  "removing I self st =
     (case as_inode (meta (inner_of st self)) of
        Some inode \<Rightarrow> on_inodes (in_removing I inode) st
      | None \<Rightarrow> (Ok (), st))"

definition renaming ::
  "('i, 's) iinode \<Rightarrow> nat \<Rightarrow> string \<Rightarrow> ('i, 's) tree \<Rightarrow> (unit, FileSystemError) outcome \<times> ('i, 's) tree" where
  "renaming I self new_name st =
     (case as_inode (meta (inner_of st self)) of
        Some inode \<Rightarrow> on_inodes (in_renaming I inode new_name) st
      | None \<Rightarrow> (Ok (), st))"

definition node_close ::
  "('i, 's) iinode \<Rightarrow> nat \<Rightarrow> string \<Rightarrow> ('i, 's) tree \<Rightarrow>
   (bool \<times> bool, FileSystemError) outcome \<times> ('i, 's) tree" where
  "node_close I self name st =
     (let x = inner_of st self;
          closed = bt_get name (opened x);
          unmounted = bt_get name (mounted x);
          st = set_inner self (set_mounted (bt_remove name (mounted x))
                                (set_opened (bt_remove name (opened x)) x)) st;
          (r, st) = (case unmounted of None \<Rightarrow> (Ok (), st) | Some u \<Rightarrow> removing I u st);
          x = inner_of st self
      in case r of
           Panic \<Rightarrow> (Panic, st)
         | Err e \<Rightarrow>
             (Err e, (case unmounted of
                        None \<Rightarrow> st
                      | Some u \<Rightarrow> set_inner self (set_mounted (bt_insert name u (mounted x)) x) st))
         | Ok _ \<Rightarrow>
             (Ok (closed \<noteq> None, unmounted \<noteq> None),
              set_inner self (set_cache (bt_remove name (children_cache x)) x) st))"

text \<open>The last strong reference to a node goes away.\<close>

definition node_drop :: "('i, 's) iinode \<Rightarrow> nat \<Rightarrow> ('i, 's) tree \<Rightarrow> ('i, 's) tree" where
  "node_drop I self st =
     (let st' = (case parent_of st self of
                   Some p \<Rightarrow> snd (node_close I p (name_internal st self) st)
                 | None \<Rightarrow> st)
      in st'\<lparr>nodes := (nodes st')(self := None)\<rparr>)"

section \<open>Opening\<close>

fun split_sep :: "string \<Rightarrow> string list" where
  "split_sep [] = [[]]"
| "split_sep (c # cs) =
     (if c = SEPARATOR then [] # split_sep cs
      else (case split_sep cs of [] \<Rightarrow> [[c]] | p # ps \<Rightarrow> (c # p) # ps))"

definition path_parts :: "string \<Rightarrow> string list" where
  "path_parts path = dropWhile (\<lambda>d. d = []) (split_sep path)"

definition resolve_link :: "('i, 's) iinode \<Rightarrow> nat \<Rightarrow> ('i, 's) tree \<Rightarrow> string option" where
  "resolve_link I self st =
     (case meta (inner_of st self) of
        Inode inode \<Rightarrow> in_resolve_link I inode (inodes st)
      | Link target \<Rightarrow> Some target
      | _ \<Rightarrow> None)"

definition RESOLUTION_LIMIT :: nat where "RESOLUTION_LIMIT = 40"

text \<open>Where \<^verbatim>\<open>open_raw\<close> starts.\<close>

definition open_start :: "nat \<Rightarrow> string \<Rightarrow> nat option \<Rightarrow> nat option" where
  "open_start self path root = (if \<not> is_path_fully_qualified path then Some self else root)"

text \<open>The child of a name that is neither empty nor a dot segment.\<close>

definition open_named ::
  "('i, 's) iinode \<Rightarrow> nat \<Rightarrow> string \<Rightarrow> ('i, 's) tree \<Rightarrow> (nat, FileSystemError) outcome \<times> ('i, 's) tree" where
  "open_named I self name st =
     (let x = inner_of st self
      in case bt_get name (mounted x) of
           Some m \<Rightarrow> (Ok m, st)
         | None \<Rightarrow>
             (case Option.bind (bt_get name (opened x)) (upgrade st) of
                Some n \<Rightarrow> (Ok n, st)
              | None \<Rightarrow>
                  sbind
                    (case bt_get name (children_cache x) of
                       Some cached \<Rightarrow>
                         (Ok cached, set_inner self (set_cache (bt_remove name (children_cache x)) x) st)
                     | None \<Rightarrow>
                         (case as_inode (meta x) of
                            Some inode \<Rightarrow> on_inodes (in_lookup I inode name) st
                          | None \<Rightarrow> (Err NotFound, st)))
                    (\<lambda>inode st.
                       let (n, st) = from_inode I (Some self) inode (Some name) st;
                           x = inner_of st self
                       in (Ok n, set_inner self (set_opened (bt_insert name n (opened x)) x) st))))"

text \<open>
  Opening a child, walking the parts of a path and resolving links call each other. The first
  argument is the depth of the call stack that is left; a call with none left overflows the stack.
\<close>

function (sequential) open_child ::
    "('i, 's) iinode \<Rightarrow> nat \<Rightarrow> nat \<Rightarrow> string \<Rightarrow> ('i, 's) tree \<Rightarrow>
     (nat, FileSystemError) outcome \<times> ('i, 's) tree"
  and open_parts ::
    "('i, 's) iinode \<Rightarrow> nat \<Rightarrow> nat \<Rightarrow> nat option \<Rightarrow> string list \<Rightarrow> ('i, 's) tree \<Rightarrow>
     (nat, FileSystemError) outcome \<times> ('i, 's) tree"
  and resolve_loop ::
    "('i, 's) iinode \<Rightarrow> nat \<Rightarrow> nat \<Rightarrow> nat \<Rightarrow> nat option \<Rightarrow> ('i, 's) tree \<Rightarrow>
     (nat, FileSystemError) outcome \<times> ('i, 's) tree" where
  "open_child I 0 self name st = (Panic, st)"
| "open_child I (Suc d) self name st =
     (if SEPARATOR \<in> set name then (Panic, st)
      else if name = ''.'' \<or> name = [] then resolve_loop I d RESOLUTION_LIMIT self None st
      else if name = ''..''
      then (Ok (case parent_of st self of None \<Rightarrow> self | Some p \<Rightarrow> p), st)
      else open_named I self name st)"
| "open_parts I 0 current root parts st = (Panic, st)"
| "open_parts I (Suc d) current root [] st = (Ok current, st)"
| "open_parts I (Suc d) current root (part # parts) st =
     sbind (resolve_loop I d RESOLUTION_LIMIT current root st)
       (\<lambda>c st. sbind (open_child I d c part st)
          (\<lambda>n st. open_parts I (Suc d) n root parts st))"
| "resolve_loop I 0 k current root st = (Panic, st)"
| "resolve_loop I (Suc d) 0 current root st = (Err LinkTooDepth, st)"
| "resolve_loop I (Suc d) (Suc k) current root st =
     (case resolve_link I current st of
        None \<Rightarrow> (Ok current, st)
      | Some target \<Rightarrow>
          (case open_start (case root of Some r \<Rightarrow> r | None \<Rightarrow> current) target (parent_of st current) of
             None \<Rightarrow> (Err NotFound, st)
           | Some start \<Rightarrow>
               (case open_parts I d start (parent_of st current) (path_parts target) st of
                  (Ok n, st) \<Rightarrow> resolve_loop I (Suc d) k n root st
                | (Err _, st) \<Rightarrow> (Err NotFound, st)
                | (Panic, st) \<Rightarrow> (Panic, st))))"
  by pat_completeness auto
termination
  by (relation "measures [
        \<lambda>x. case x of Inl (_, d, _) \<Rightarrow> d | Inr (Inl (_, d, _)) \<Rightarrow> d | Inr (Inr (_, d, _)) \<Rightarrow> d,
        \<lambda>x. case x of Inl _ \<Rightarrow> 0 | Inr (Inl (_, _, _, _, ps, _)) \<Rightarrow> length ps | Inr (Inr (_, _, k, _)) \<Rightarrow> k]")
     auto

definition open_raw ::
  "('i, 's) iinode \<Rightarrow> nat \<Rightarrow> nat \<Rightarrow> string \<Rightarrow> nat option \<Rightarrow> ('i, 's) tree \<Rightarrow>
   (nat, FileSystemError) outcome \<times> ('i, 's) tree" where
  "open_raw I d self path root st =
     (case open_start self path root of
        None \<Rightarrow> (Err InvalidInput, st)
      | Some current \<Rightarrow> open_parts I d current root (path_parts path) st)"

definition resolve_all_link ::
  "('i, 's) iinode \<Rightarrow> nat \<Rightarrow> nat \<Rightarrow> nat option \<Rightarrow> ('i, 's) tree \<Rightarrow>
   (nat, FileSystemError) outcome \<times> ('i, 's) tree" where
  "resolve_all_link I d self root st = resolve_loop I d RESOLUTION_LIMIT self root st"

definition node_open ::
  "('i, 's) iinode \<Rightarrow> nat \<Rightarrow> nat \<Rightarrow> string \<Rightarrow> nat option \<Rightarrow> ('i, 's) tree \<Rightarrow>
   (nat, FileSystemError) outcome \<times> ('i, 's) tree" where
  "node_open I d self path root st =
     sbind (open_raw I d self path root st) (\<lambda>n st. resolve_all_link I d n root st)"

definition open_path ::
  "('i, 's) iinode \<Rightarrow> nat \<Rightarrow> string \<Rightarrow> nat \<Rightarrow> ('i, 's) tree \<Rightarrow>
   (nat, FileSystemError) outcome \<times> ('i, 's) tree" where
  "open_path I d path root st =
     (if \<not> is_path_fully_qualified path then (Err InvalidInput, st)
      else open_raw I d root path (Some root) st)"

section \<open>Ancestors\<close>

text \<open>A node is created after its parent, so its number bounds the length of its chain of parents.\<close>

fun ancestors_upto :: "nat \<Rightarrow> ('i, 's) tree \<Rightarrow> nat \<Rightarrow> nat list" where
  "ancestors_upto 0 st n = [n]"
| "ancestors_upto (Suc k) st n =
     n # (case parent_of st n of None \<Rightarrow> [] | Some p \<Rightarrow> ancestors_upto k st p)"

definition ancestors :: "('i, 's) tree \<Rightarrow> nat \<Rightarrow> nat list" where
  "ancestors st n = ancestors_upto n st n"

text \<open>The names are pushed from the node to the root, which has none, and popped in the other
  direction.\<close>

fun pop_names :: "string list \<Rightarrow> string" where
  "pop_names [] = []"
| "pop_names (part # stack) = part @ (if stack \<noteq> [] then [SEPARATOR] else []) @ pop_names stack"

definition fullpath :: "('i, 's) tree \<Rightarrow> nat \<Rightarrow> string" where
  "fullpath st self =
     SEPARATOR # pop_names (rev (map (name_internal st) (butlast (ancestors st self))))"

definition get_common_parent :: "('i, 's) tree \<Rightarrow> nat \<Rightarrow> nat \<Rightarrow> nat option" where
  "get_common_parent st lhs rhs =
     (let lhs_ancestors = ancestors st lhs
      in find (\<lambda>n. n \<in> set lhs_ancestors) (ancestors st rhs))"

text \<open>The loop follows the parents to the end before it looks at the file system.\<close>

definition get_containing_filesystem :: "('i, 's) tree \<Rightarrow> nat \<Rightarrow> nat" where
  "get_containing_filesystem st self =
     (let current = last (ancestors st self)
      in case meta (inner_of st current) of FileSystem fs \<Rightarrow> current | _ \<Rightarrow> current)"

section \<open>Files\<close>

definition node_metadata :: "('i, 's) iinode \<Rightarrow> nat \<Rightarrow> ('i, 's) tree \<Rightarrow> inode_metadata" where
  "node_metadata I self st =
     (case as_inode (meta (inner_of st self)) of
        Some inode \<Rightarrow>
          let m = in_metadata I inode (inodes st)
          in \<lparr>im_filename = name_internal st self, im_entry_type = im_entry_type m, im_size = im_size m\<rparr>
      | None \<Rightarrow> \<lparr>im_filename = name_internal st self, im_entry_type = Directory, im_size = 0\<rparr>)"

definition node_readat ::
  "('i, 's) iinode \<Rightarrow> nat \<Rightarrow> usize \<Rightarrow> u8 list \<Rightarrow> ('i, 's) tree \<Rightarrow>
   (usize \<times> u8 list, FileSystemError) outcome \<times> ('i, 's) tree" where
  "node_readat I self offset buffer st =
     (case as_inode (meta (inner_of st self)) of
        Some inode \<Rightarrow> on_inodes (in_readat I inode offset buffer) st
      | None \<Rightarrow> (Err NotAFile, st))"

definition node_writeat ::
  "('i, 's) iinode \<Rightarrow> nat \<Rightarrow> usize \<Rightarrow> u8 list \<Rightarrow> ('i, 's) tree \<Rightarrow>
   (usize, FileSystemError) outcome \<times> ('i, 's) tree" where
  "node_writeat I self offset buffer st =
     (case as_inode (meta (inner_of st self)) of
        Some inode \<Rightarrow> on_inodes (in_writeat I inode offset buffer) st
      | None \<Rightarrow> (Err NotAFile, st))"

text \<open>The fresh buffer is not initialised; its contents are an argument.\<close>

definition readvec_at ::
  "('i, 's) iinode \<Rightarrow> (nat \<Rightarrow> u8 list) \<Rightarrow> nat \<Rightarrow> usize \<Rightarrow> usize \<Rightarrow> ('i, 's) tree \<Rightarrow>
   (u8 list, FileSystemError) outcome \<times> ('i, 's) tree" where
  "readvec_at I uninit self offset max_length st =
     (case usub (im_size (node_metadata I self st)) offset of
        None \<Rightarrow> (Panic, st)
      | Some rest \<Rightarrow>
          sbind (node_readat I self offset (uninit (unat (min rest max_length))) st)
            (\<lambda>(_, buf) st. (Ok buf, st)))"

definition readrest_at ::
  "('i, 's) iinode \<Rightarrow> (nat \<Rightarrow> u8 list) \<Rightarrow> nat \<Rightarrow> usize \<Rightarrow> ('i, 's) tree \<Rightarrow>
   (u8 list, FileSystemError) outcome \<times> ('i, 's) tree" where
  "readrest_at I uninit self offset st = readvec_at I uninit self offset (- 1) st"

definition readall ::
  "('i, 's) iinode \<Rightarrow> (nat \<Rightarrow> u8 list) \<Rightarrow> nat \<Rightarrow> ('i, 's) tree \<Rightarrow>
   (u8 list, FileSystemError) outcome \<times> ('i, 's) tree" where
  "readall I uninit self st = readrest_at I uninit self 0 st"

definition resize_inode ::
  "('i, 's) iinode \<Rightarrow> nat \<Rightarrow> u64 \<Rightarrow> ('i, 's) tree \<Rightarrow> (u64, FileSystemError) outcome \<times> ('i, 's) tree" where
  "resize_inode I self new_size st =
     (case as_inode (meta (inner_of st self)) of
        Some inode \<Rightarrow> on_inodes (in_resize I inode new_size) st
      | None \<Rightarrow> (Err NotAFile, st))"

section \<open>Directories\<close>

fun mount_err :: "('a, MountError) outcome \<times> 't \<Rightarrow> ('a, FileSystemError) outcome \<times> 't" where
  "mount_err (Ok a, st) = (Ok a, st)"
| "mount_err (Err e, st) = (Err (to_filesystem_error e), st)"
| "mount_err (Panic, st) = (Panic, st)"

text \<open>A new inode of a directory gets a node, which the directory remembers weakly.\<close>

definition wrap_opened ::
  "('i, 's) iinode \<Rightarrow> nat \<Rightarrow> 'i \<Rightarrow> ('i, 's) tree \<Rightarrow> nat \<times> ('i, 's) tree" where
  "wrap_opened I self made st =
     (let (wrapped, st) = from_inode I (Some self) made None st;
          x = inner_of st self
      in (wrapped, set_inner self (set_opened (bt_insert (name_internal st wrapped) wrapped (opened x)) x) st))"

definition mkdir ::
  "('i, 's) iinode \<Rightarrow> nat \<Rightarrow> string \<Rightarrow> ('i, 's) tree \<Rightarrow> (nat, FileSystemError) outcome \<times> ('i, 's) tree" where
  "mkdir I self name st =
     (if is_mounted (inner_of st self) name then (Err AlreadyExists, st)
      else (case as_inode (meta (inner_of st self)) of
          None \<Rightarrow> mount_err (mount_empty self name st)
        | Some inode \<Rightarrow>
            (case on_inodes (in_mkdir I inode name) st of
               (Ok made, st) \<Rightarrow> let (n, st) = wrap_opened I self made st in (Ok n, st)
             | (Err e, st) \<Rightarrow>
                 if e = AlreadyExists then (Err e, st) else mount_err (mount_empty self name st)
             | (Panic, st) \<Rightarrow> (Panic, st))))"

definition touch ::
  "('i, 's) iinode \<Rightarrow> nat \<Rightarrow> string \<Rightarrow> ('i, 's) tree \<Rightarrow> (nat, FileSystemError) outcome \<times> ('i, 's) tree" where
  "touch I self name st =
     (case as_inode (meta (inner_of st self)) of
        None \<Rightarrow> (Err NotADirectory, st)
      | Some inode \<Rightarrow>
          (case on_inodes (in_touch I inode name) st of
             (Ok touched, st) \<Rightarrow> let (n, st) = wrap_opened I self touched st in (Ok n, st)
           | (Err e, st) \<Rightarrow> if e = AlreadyExists then (Err e, st) else (Err NotADirectory, st)
           | (Panic, st) \<Rightarrow> (Panic, st)))"

definition rmdir ::
  "('i, 's) iinode \<Rightarrow> nat \<Rightarrow> string \<Rightarrow> ('i, 's) tree \<Rightarrow> (unit, FileSystemError) outcome \<times> ('i, 's) tree" where
  "rmdir I self name st =
     sbind (node_close I self name st)
       (\<lambda>(closed, unmounted) st.
          if closed \<or> unmounted then (Ok (), st)
          else (case as_inode (meta (inner_of st self)) of
              Some inode \<Rightarrow> on_inodes (in_rmdir I inode name) st
            | None \<Rightarrow> (Ok (), st)))"

definition node_remove ::
  "('i, 's) iinode \<Rightarrow> nat \<Rightarrow> string \<Rightarrow> ('i, 's) tree \<Rightarrow> (unit, FileSystemError) outcome \<times> ('i, 's) tree" where
  "node_remove I self name st =
     sbind (node_close I self name st)
       (\<lambda>(closed, unmounted) st.
          if closed \<or> unmounted then (Ok (), st)
          else (case as_inode (meta (inner_of st self)) of
              Some inode \<Rightarrow> on_inodes (in_remove I inode name) st
            | None \<Rightarrow> (Ok (), st)))"

definition to_directory_entry ::
  "('i, 's) iinode \<Rightarrow> ('i, 's) tree \<Rightarrow> string \<Rightarrow> nat \<Rightarrow> directory_entry" where
  "to_directory_entry I st name node =
     \<lparr>de_filename = name,
      de_entry_type =
        (case as_inode (meta (inner_of st node)) of
           Some inode \<Rightarrow> im_entry_type (in_metadata I inode (inodes st))
         | None \<Rightarrow> Directory)\<rparr>"

text \<open>The pass over the entries: a mount of the same name replaces the entry and is put aside.\<close>

fun override_loop ::
  "('i, 's) iinode \<Rightarrow> ('i, 's) tree \<Rightarrow> directory_entry list \<Rightarrow> nat btree \<Rightarrow> nat btree \<Rightarrow>
   directory_entry list \<times> nat btree \<times> nat btree" where
  "override_loop I st [] ms overrideds = ([], ms, overrideds)"
| "override_loop I st (entry # entries) ms overrideds =
     (case bt_get (de_filename entry) ms of
        Some m \<Rightarrow>
          let (es, ms, ov) = override_loop I st entries (bt_remove (de_filename entry) ms)
                               (bt_insert (de_filename entry) m overrideds)
          in (to_directory_entry I st (de_filename entry) m # es, ms, ov)
      | None \<Rightarrow>
          let (es, ms, ov) = override_loop I st entries ms overrideds in (entry # es, ms, ov))"

definition reinsert :: "nat btree \<Rightarrow> nat btree \<Rightarrow> nat btree" where
  "reinsert overrideds ms = fold (\<lambda>(k, v) m. bt_insert k v m) overrideds ms"

definition read_dir ::
  "('i, 's) iinode \<Rightarrow> nat \<Rightarrow> ('i, 's) tree \<Rightarrow>
   (directory_entry list, FileSystemError) outcome \<times> ('i, 's) tree" where
  "read_dir I self st =
     sbind
       (let x = inner_of st self
        in case as_inode (meta x) of
             Some inode \<Rightarrow>
               sbind (on_inodes (in_read_cache_dir I inode (children_cache x)) st)
                 (\<lambda>(entries, cache) st.
                    let (entries, ms, overrideds) = override_loop I st entries (mounted x) [];
                        entries = entries @ map (\<lambda>(name, n). to_directory_entry I st name n) ms;
                        x = inner_of st self
                    in (Ok entries,
                        set_inner self (set_cache cache (set_mounted (reinsert overrideds ms) x)) st))
           | None \<Rightarrow> (Ok (map (\<lambda>(name, n). to_directory_entry I st name n) (mounted x)), st))
       (\<lambda>entries st.
          (Ok (entries
               @ (case parent_of st self of
                    Some p \<Rightarrow> [to_directory_entry I st ''..'' p]
                  | None \<Rightarrow> [])
               @ [to_directory_entry I st ''.'' self]), st))"

definition node_stat ::
  "('i, 's) iinode \<Rightarrow> nat \<Rightarrow> file_statistics \<Rightarrow> ('i, 's) tree \<Rightarrow>
   (file_statistics, FileSystemError) outcome \<times> ('i, 's) tree" where
  "node_stat I self sb st =
     (case as_inode (meta (inner_of st self)) of
        Some inode \<Rightarrow> on_inodes (in_stat I inode sb) st
      | None \<Rightarrow>
          (case (case meta (inner_of st self) of
                   Link target \<Rightarrow> Some MODE_LINK
                 | Empty \<Rightarrow> Some MODE_DIR
                 | _ \<Rightarrow> None) of
             None \<Rightarrow> (Panic, st)
           | Some mode \<Rightarrow>
               (Ok \<lparr>device_id = 0, inode_id = 0, st_mode = mode, link_count = 1, uid = 0, gid = 0,
                    rdev = 0, st_size = 0, block_size = 512, block_count = 0,
                    atime = spec_zero, mtime = spec_zero, ctime = spec_zero\<rparr>, st)))"

section \<open>Links and renaming\<close>

definition hard_link ::
  "('i, 's) iinode \<Rightarrow> nat \<Rightarrow> string \<Rightarrow> nat \<Rightarrow> ('i, 's) tree \<Rightarrow>
   (unit, FileSystemError) outcome \<times> ('i, 's) tree" where
  "hard_link I self name source st =
     (let mount = (\<lambda>st. sbind (mount_err (mount_as self source (Some name) st)) (\<lambda>_ st. (Ok (), st)));
          self_inode = as_inode (meta (inner_of st self));
          source_inode =
            (if self = source then self_inode
             else if get_containing_filesystem st self = get_containing_filesystem st source
                  then as_inode (meta (inner_of st source)) else None)
      in case (self_inode, source_inode) of
           (Some i, Some j) \<Rightarrow>
             (case on_inodes (in_hard_link I i name j) st of
                (Ok _, st) \<Rightarrow> (Ok (), st)
              | (Err _, st) \<Rightarrow> mount st
              | (Panic, st) \<Rightarrow> (Panic, st))
         | _ \<Rightarrow> mount st)"

definition soft_link ::
  "('i, 's) iinode \<Rightarrow> nat \<Rightarrow> string \<Rightarrow> string \<Rightarrow> ('i, 's) tree \<Rightarrow>
   (nat, FileSystemError) outcome \<times> ('i, 's) tree" where
  "soft_link I self name point_to st =
     (case as_inode (meta (inner_of st self)) of
        Some self_inode \<Rightarrow>
          sbind (on_inodes (in_soft_link I self_inode name point_to) st)
            (\<lambda>inode st. let (n, st) = from_inode I (Some self) inode (Some name) st in (Ok n, st))
      | None \<Rightarrow>
          let (node, st) = from_symlink (Some self) name point_to st
          in mount_err (mount_as self node (Some name) st))"

definition node_rename ::
  "('i, 's) iinode \<Rightarrow> nat \<Rightarrow> string \<Rightarrow> string \<Rightarrow> ('i, 's) tree \<Rightarrow>
   (unit, FileSystemError) outcome \<times> ('i, 's) tree" where
  "node_rename I self old_name new_name st =
     (let x = inner_of st self
      in case bt_get old_name (mounted x) of
           Some node \<Rightarrow>
             (case renaming I node new_name
                     (set_inner self (set_mounted (bt_remove old_name (mounted x)) x) st) of
                (Ok _, st) \<Rightarrow>
                  let x = inner_of st self
                  in (Ok (), set_inner self (set_mounted (bt_insert new_name node (mounted x)) x) st)
              | (Err e, st) \<Rightarrow>
                  let x = inner_of st self
                  in (Err e, set_inner self (set_mounted (bt_insert old_name node (mounted x)) x) st)
              | (Panic, st) \<Rightarrow> (Panic, st))
         | None \<Rightarrow>
             let x = (case bt_get old_name (opened x) of
                        Some w \<Rightarrow> set_opened (bt_insert new_name w (bt_remove old_name (opened x))) x
                      | None \<Rightarrow> x);
                 st = set_inner self x st
             in sbind
                  (case bt_get old_name (children_cache x) of
                     None \<Rightarrow> (Ok (), st)
                   | Some inode \<Rightarrow>
                       sbind (on_inodes (in_renaming I inode new_name) st)
                         (\<lambda>_ st.
                            let x = inner_of st self
                            in (Ok (), set_inner self
                                 (set_cache (bt_insert new_name inode
                                    (bt_remove old_name (children_cache x))) x) st)))
                  (\<lambda>_ st.
                     case as_inode (meta (inner_of st self)) of
                       Some inode \<Rightarrow> on_inodes (in_rename I inode old_name new_name) st
                     | None \<Rightarrow> (Err NotFound, st)))"

section \<open>Maps and stores\<close>

lemma bt_get_insert [simp]: "bt_get k (bt_insert k' v m) = (if k = k' then Some v else bt_get k m)"
  by (induction m) auto

lemma bt_get_distinct: "distinct (map fst m) \<Longrightarrow> k \<notin> fst ` set m \<Longrightarrow> bt_get k m = None"
  by (induction m) auto

lemma bt_get_remove:
  "distinct (map fst m) \<Longrightarrow> bt_get k (bt_remove k' m) = (if k = k' then None else bt_get k m)"
  by (induction m) (auto simp: bt_get_distinct)

lemma inner_simps [simp]:
  "meta (set_name n x) = meta x" "node_name (set_name n x) = n" "mounted (set_name n x) = mounted x"
  "opened (set_name n x) = opened x" "children_cache (set_name n x) = children_cache x" "shadowed (set_name n x) = shadowed x"
  "meta (set_mounted m x) = meta x" "node_name (set_mounted m x) = node_name x" "mounted (set_mounted m x) = m"
  "opened (set_mounted m x) = opened x" "children_cache (set_mounted m x) = children_cache x" "shadowed (set_mounted m x) = shadowed x"
  "meta (set_opened m x) = meta x" "node_name (set_opened m x) = node_name x" "mounted (set_opened m x) = mounted x"
  "opened (set_opened m x) = m" "children_cache (set_opened m x) = children_cache x" "shadowed (set_opened m x) = shadowed x"
  "meta (set_cache c x) = meta x" "node_name (set_cache c x) = node_name x" "mounted (set_cache c x) = mounted x"
  "opened (set_cache c x) = opened x" "children_cache (set_cache c x) = c" "shadowed (set_cache c x) = shadowed x"
  "meta (set_shadowed s x) = meta x" "node_name (set_shadowed s x) = node_name x" "mounted (set_shadowed s x) = mounted x"
  "opened (set_shadowed s x) = opened x" "children_cache (set_shadowed s x) = children_cache x" "shadowed (set_shadowed s x) = s"
  by (simp_all add: set_name_def set_mounted_def set_opened_def set_cache_def set_shadowed_def)

lemma set_name_twice [simp]: "set_name a (set_name b x) = set_name a x" "set_name (node_name x) x = x"
  by (cases x; simp add: set_name_def)+

lemma inner_of_set [simp]:
  "nodes st n \<noteq> None \<Longrightarrow> inner_of (set_inner n x st) n = x"
  "m \<noteq> n \<Longrightarrow> inner_of (set_inner n x st) m = inner_of st m"
  by (auto simp: inner_of_def set_inner_def split: option.splits)

lemma set_inner_simps [simp]:
  "nodes (set_inner n x st) m = None \<longleftrightarrow> nodes st m = None"
  "(\<exists>y. nodes (set_inner n x st) m = Some y) \<longleftrightarrow> (\<exists>y. nodes st m = Some y)" "parent_of (set_inner n x st) m = parent_of st m"
  "inodes (set_inner n x st) = inodes st" "fresh (set_inner n x st) = fresh st"
  by (auto simp: set_inner_def parent_of_def split: option.splits)

lemma new_node_simps [simp]:
  "new_node p x st = (n, st') \<Longrightarrow> n = fresh st"
  by (simp add: new_node_def)

lemma inner_of_new [simp]: "inner_of (snd (new_node p x st)) k = (if k = fresh st then x else inner_of st k)"
  by (simp add: new_node_def inner_of_def)

lemma nodes_new: "nodes (snd (new_node p x st)) k = (if k = fresh st then Some \<lparr>parent = p, inner = x\<rparr> else nodes st k)"
  by (simp add: new_node_def)

text \<open>The store of a running system: the next number is free, and a node is younger than its parent,
  which is alive.\<close>

definition tree_ok :: "('i, 's) tree \<Rightarrow> bool" where
  "tree_ok st \<longleftrightarrow> (\<forall>n \<ge> fresh st. nodes st n = None)
     \<and> (\<forall>n x p. nodes st n = Some x \<longrightarrow> parent x = Some p \<longrightarrow> p < n \<and> nodes st p \<noteq> None)"

lemma tree_okD: "tree_ok st \<Longrightarrow> nodes st n \<noteq> None \<Longrightarrow> n \<noteq> fresh st"
  by (auto simp: tree_ok_def)

section \<open>Mounting over a mount\<close>

lemma shadow_restore:
  assumes "tree_ok st" "nodes st m \<noteq> None" "nodes st new \<noteq> None" "m \<noteq> new"
  defines "st1 \<equiv> snd (shadow_with m new st)"
  shows "inner_of (snd (restore_shadow m st1)) m = inner_of st m"
    "shadowed (inner_of st1 m) \<noteq> None"
    "k \<noteq> m \<Longrightarrow> k \<noteq> new \<Longrightarrow> k \<noteq> fresh st \<Longrightarrow> inner_of (snd (restore_shadow m st1)) k = inner_of st k"
    "k \<noteq> m \<Longrightarrow> k \<noteq> new \<Longrightarrow> inner_of st1 k = inner_of st k"
    "nodes st1 k = None \<longleftrightarrow> nodes st k = None" "fresh st1 = fresh st"
    "meta (inner_of st1 m) = meta (inner_of st new) \<and> mounted (inner_of st1 m) = mounted (inner_of st new)
      \<and> node_name (inner_of st1 m) = node_name (inner_of st m)"
  using assms tree_okD [OF assms(1,2)]
  by (auto simp: st1_def shadow_with_def restore_shadow_def Let_def case_prod_beta)

section \<open>Mount and unmount\<close>


text \<open>C28: a directory made in a directory without a backing inode is found again: \<^verbatim>\<open>mkdir\<close> returns a fresh
  node, opening its name returns that node, and making it a second time reports that it exists.\<close>

theorem mkdir_then_open:
  assumes "tree_ok st" and "nodes st self \<noteq> None" and "meta (inner_of st self) = Empty"
    and "bt_get name (mounted (inner_of st self)) = None"
    and "name \<notin> {[], ''.'', ''..''}" and "SEPARATOR \<notin> set name"
  shows "\<exists>n st'. mkdir I self name st = (Ok n, st') \<and> nodes st n = None \<and> parent_of st' n = Some self
    \<and> open_child I (Suc d) self name st' = (Ok n, st') \<and> mkdir I self name st' = (Err AlreadyExists, st')"
proof -
  let ?n = "fresh st" and ?x = "inner_of st self"
  let ?s1 = "snd (new_node (Some self) (Inner Empty name [] [] [] None) st)"
  let ?s2 = "set_inner self (set_mounted (bt_insert name ?n (mounted ?x)) ?x) ?s1"
  have ne: "self \<noteq> fresh st" using tree_okD [OF assms(1,2)] .
  have alive: "nodes ?s1 self \<noteq> None" using ne assms(2) by (simp add: nodes_new)
  have mk: "mkdir I self name st = (Ok ?n, ?s2)"
    using assms(3,4) ne
    by (simp add: mkdir_def is_mounted_def mount_empty_def from_empty_def mount_internal_def Let_def
        case_prod_beta) (simp add: new_node_def)
  have x2: "inner_of ?s2 self = set_mounted (bt_insert name ?n (mounted ?x)) ?x" using alive by simp
  have "open_child I (Suc d) self name ?s2 = (Ok ?n, ?s2)"
    using assms(5,6) x2 by (simp add: open_named_def)
  moreover have "mkdir I self name ?s2 = (Err AlreadyExists, ?s2)"
    using x2 by (simp add: mkdir_def is_mounted_def)
  moreover have "nodes st ?n = None" using assms(1) by (simp add: tree_ok_def)
  moreover have "parent_of ?s2 ?n = Some self" by (simp add: parent_of_def nodes_new set_inner_def ne [symmetric] split: option.splits)
  ultimately show ?thesis using mk by blast
qed

section \<open>Links\<close>

lemma resolve_plain: "resolve_link I n st = None \<Longrightarrow> resolve_loop I (Suc d) (Suc k) n root st = (Ok n, st)"
  by simp

lemma open_mounted:
  "bt_get name (mounted (inner_of st p)) = Some n \<Longrightarrow> segment name \<Longrightarrow> name \<noteq> ''.'' \<Longrightarrow> name \<noteq> ''..'' \<Longrightarrow>
   open_child I (Suc d) p name st = (Ok n, st)"
  by (simp add: segment_def open_named_def)

lemma limit: "RESOLUTION_LIMIT = Suc 39"
  by (simp add: RESOLUTION_LIMIT_def)

lemma open_one_mounted:
  assumes "bt_get name (mounted (inner_of st p)) = Some n" "segment name" "name \<noteq> ''.''" "name \<noteq> ''..''"
    "resolve_link I p st = None"
  shows "open_parts I (Suc (Suc d)) p root (name # parts) st = open_parts I (Suc (Suc d)) n root parts st"
  unfolding open_parts.simps limit resolve_plain [OF assms(5)] sbind.simps open_mounted [OF assms(1-4)] ..

text \<open>C38: the places a link target is resolved from are exchanged: an absolute target is looked up from
  the directory the link is in, whatever the root is, and a relative target is looked up from the root.\<close>

theorem link_resolution_swapped:
  assumes "meta (inner_of st l) = Link target" and "path_parts target = [name]"
    and "segment name" and "name \<noteq> ''.''" and "name \<noteq> ''..''" and "parent_of st l = Some p"
    and "resolve_link I p st = None" and "resolve_link I r st = None"
    and "bt_get name (mounted (inner_of st p)) = Some in_dir" and "resolve_link I in_dir st = None"
    and "bt_get name (mounted (inner_of st r)) = Some in_root" and "resolve_link I in_root st = None"
  shows "resolve_all_link I (Suc (Suc (Suc d))) l (Some r) st =
    (Ok (if is_path_fully_qualified target then in_dir else in_root), st)"
proof -
  have l: "resolve_link I l st = Some target" using assms(1) by (simp add: resolve_link_def)
  let ?p = "if is_path_fully_qualified target then p else r"
  let ?n = "if is_path_fully_qualified target then in_dir else in_root"
  have "open_start r target (Some p) = Some ?p" by (simp add: open_start_def)
  moreover have "open_parts I (Suc (Suc d)) ?p (Some p) [name] st = (Ok ?n, st)"
    using open_one_mounted [of name st ?p ?n I d "Some p" "[]"] assms by simp
  moreover have "resolve_loop I (Suc (Suc (Suc d))) 39 ?n (Some r) st = (Ok ?n, st)"
    using resolve_plain [of I ?n st _ 38] assms(10,12) by (simp split: if_splits)
  ultimately show ?thesis
    unfolding resolve_all_link_def limit by (simp only: resolve_loop.simps l option.case assms(6,2)) simp
qed

text \<open>C37: a link whose target goes through the link itself overflows the stack: the limit of forty
  resolutions counts per call, and resolving the target resolves the link again one call deeper. No
  depth of the stack is enough.\<close>

theorem link_through_itself_overflows:
  assumes "meta (inner_of st l) = Link target" and "path_parts target = name # nxt # rest"
    and "\<not> is_path_fully_qualified target" and "parent_of st l = Some r" and "resolve_link I r st = None"
    and "bt_get name (mounted (inner_of st r)) = Some l" and "segment name" and "name \<noteq> ''.''" and "name \<noteq> ''..''"
  shows "resolve_all_link I depth l (Some r) st = (Panic, st)"
proof -
  have l: "resolve_link I l st = Some target" using assms(1) by (simp add: resolve_link_def)
  have st: "open_start r target (Some r) = Some r" using assms(3) by (simp add: open_start_def)
  have "resolve_loop I depth (Suc 39) l (Some r) st = (Panic, st)"
  proof (induction depth rule: less_induct)
    case (less depth)
    consider "depth = 0" | "depth = Suc 0" | "depth = Suc (Suc 0)" | d where "depth = Suc (Suc (Suc d))"
      by (metis not0_implies_Suc)
    then show ?case
    proof cases
      case (4 d)
      have "open_parts I (Suc (Suc d)) r (Some r) (name # nxt # rest) st =
          open_parts I (Suc (Suc d)) l (Some r) (nxt # rest) st"
        by (rule open_one_mounted [OF assms(6-9,5)])
      also have "\<dots> = (Panic, st)"
        using less [of "Suc d"] 4 by (simp only: open_parts.simps limit sbind.simps)
      finally have "open_parts I (Suc (Suc d)) r (Some r) (path_parts target) st = (Panic, st)"
        unfolding assms(2) .
      then show ?thesis
        by (simp only: 4 resolve_loop.simps l option.case assms(4) st prod.case outcome.case)
    qed (simp_all only: resolve_loop.simps open_parts.simps l st assms(2,4) limit option.case sbind.simps prod.case outcome.case)
  qed
  then show ?thesis by (simp add: resolve_all_link_def limit)
qed

section \<open>Paths of nodes\<close>

text \<open>A chain of nodes from a directory downwards, each mounted in the one before under its own name.\<close>

fun chain :: "('i, 's) iinode \<Rightarrow> ('i, 's) tree \<Rightarrow> nat \<Rightarrow> nat list \<Rightarrow> bool" where
  "chain I st p [] = True"
| "chain I st p (c # cs) \<longleftrightarrow>
     resolve_link I p st = None \<and> bt_get (name_internal st c) (mounted (inner_of st p)) = Some c
     \<and> segment (name_internal st c) \<and> name_internal st c \<noteq> ''.'' \<and> name_internal st c \<noteq> ''..'' \<and> chain I st c cs"

lemma open_parts_chain:
  "chain I st p cs \<Longrightarrow> open_parts I (Suc (Suc d)) p root (map (name_internal st) cs) st = (Ok (last (p # cs)), st)"
proof (induction cs arbitrary: p)
  case (Cons c cs)
  then show ?case
    using open_one_mounted [of "name_internal st c" st p c I d root "map (name_internal st) cs"] by auto
qed simp

lemma split_sep_nonempty: "split_sep s \<noteq> []"
  by (induction s) (auto split: list.splits)

lemma split_sep_segment: "SEPARATOR \<notin> set s \<Longrightarrow> split_sep s = [s]"
  by (induction s) auto

lemma split_sep_append: "SEPARATOR \<notin> set s \<Longrightarrow> split_sep (s @ SEPARATOR # r) = s # split_sep r"
  by (induction s) auto

lemma split_pop_names: "\<forall>s\<in>set names. segment s \<Longrightarrow> names \<noteq> [] \<Longrightarrow> split_sep (pop_names names) = names"
  by (induction names) (auto simp: segment_def split_sep_segment split_sep_append)

lemma path_parts_names: "\<forall>s\<in>set names. segment s \<Longrightarrow> path_parts (SEPARATOR # pop_names names) = names"
  using split_pop_names [of names]
  by (cases names) (auto simp: path_parts_def segment_def simp del: pop_names.simps(2))

lemma chain_segments: "chain I st p cs \<Longrightarrow> s \<in> name_internal st ` set cs \<Longrightarrow> segment s"
  by (induction cs arbitrary: p) auto

lemma ancestors_Cons: "\<exists>ps. ancestors st n = n # ps"
  by (cases n) (simp_all add: ancestors_def)

text \<open>C17: the full path of a node leads back to it: when every node on the way from the root is mounted
  under its own name, opening \<^verbatim>\<open>fullpath\<close> from that root gives the node and changes nothing.\<close>

theorem open_fullpath:
  assumes "rev (ancestors st n) = root # cs" and "chain I st root cs"
  shows "open_path I (Suc (Suc d)) (fullpath st n) root st = (Ok n, st)"
proof -
  obtain ps where ps: "ancestors st n = n # ps" using ancestors_Cons by blast
  have last: "last (root # cs) = n" using assms(1) ps by (metis last_rev list.sel(1) list.distinct(1))
  have "rev (butlast (ancestors st n)) = cs" using assms(1) by (metis butlast_rev list.sel(3) rev_rev_ident)
  then have fp: "fullpath st n = SEPARATOR # pop_names (map (name_internal st) cs)"
    by (simp add: fullpath_def rev_map)
  have parts: "path_parts (fullpath st n) = map (name_internal st) cs"
    unfolding fp using chain_segments [OF assms(2)] by (intro path_parts_names) auto
  have "is_path_fully_qualified (fullpath st n)"
    by (simp add: fp is_path_fully_qualified_def is_partially_qualified_def is_path_rooted_def starts_with_separator_def)
  then show ?thesis
    using open_parts_chain [OF assms(2), of d "Some root"] last
    by (simp add: open_path_def open_raw_def open_start_def parts del: last.simps)
qed

section \<open>A small tree\<close>

text \<open>The root has a directory \<^verbatim>\<open>d\<close>, a directory \<^verbatim>\<open>f\<close> and a link \<^verbatim>\<open>s\<close> to \<^verbatim>\<open>s/x\<close>; in \<^verbatim>\<open>d\<close> there are the
  directory \<^verbatim>\<open>f\<close>, a link \<^verbatim>\<open>l\<close> to \<^verbatim>\<open>/f\<close> and a link \<^verbatim>\<open>r\<close> to \<^verbatim>\<open>f\<close>.\<close>

definition demo_inode :: "(unit, unit) iinode" where
  "demo_inode = default_inode (\<lambda>_ _. \<lparr>im_filename = [], im_entry_type = Directory, im_size = 0\<rparr>)"

definition demo_node :: "nat option \<Rightarrow> string \<Rightarrow> unit node_meta \<Rightarrow> nat btree \<Rightarrow> unit node option" where
  "demo_node p name mt ms = Some \<lparr>parent = p, inner = Inner mt name ms [] [] None\<rparr>"

definition demo_tree :: "(unit, unit) tree" where
  "demo_tree = \<lparr>nodes = (\<lambda>_. None)(
     0 := demo_node None [] Empty [(''d'', 1), (''f'', 2), (''s'', 5)],
     1 := demo_node (Some 0) ''d'' Empty [(''f'', 4), (''l'', 3), (''r'', 6)],
     2 := demo_node (Some 0) ''f'' Empty [],
     3 := demo_node (Some 1) ''l'' (Link ''/f'') [],
     4 := demo_node (Some 1) ''f'' Empty [],
     5 := demo_node (Some 0) ''s'' (Link ''s/x'') [],
     6 := demo_node (Some 1) ''r'' (Link ''f'') []),
     fresh = 7, inodes = ()\<rparr>"

lemma demo_ok: "tree_ok demo_tree"
  by (auto simp: tree_ok_def demo_tree_def demo_node_def)

lemmas demo_simps = demo_tree_def demo_node_def inner_of_def parent_of_def name_internal_def resolve_link_def
  path_parts_def segment_def SEPARATOR_def is_path_fully_qualified_def is_partially_qualified_def
  is_path_rooted_def starts_with_separator_def


theorem mkdir_then_open_witness:
  "\<exists>n st'. mkdir demo_inode 2 ''new'' demo_tree = (Ok n, st') \<and> open_child demo_inode 1 2 ''new'' st' = (Ok n, st')"
proof -
  have "meta (inner_of demo_tree 2) = Empty" "nodes demo_tree 2 \<noteq> None" "bt_get ''new'' (mounted (inner_of demo_tree 2)) = None"
    by (simp_all add: demo_simps)
  with mkdir_then_open [OF demo_ok, of 2 "''new''" demo_inode 0] show ?thesis by (auto simp: SEPARATOR_def)
qed

theorem link_resolution_swapped_witness:
  "resolve_all_link demo_inode 3 3 (Some 0) demo_tree = (Ok 4, demo_tree)
   \<and> resolve_all_link demo_inode 3 6 (Some 0) demo_tree = (Ok 2, demo_tree)"
  using link_resolution_swapped [of demo_tree 3 "''/f''" "''f''" 1 demo_inode 0 4 2 0]
    link_resolution_swapped [of demo_tree 6 "''f''" "''f''" 1 demo_inode 0 4 2 0]
  by (simp add: demo_simps numeral_3_eq_3)

theorem link_through_itself_overflows_witness:
  "resolve_all_link demo_inode 1000000 5 (Some 0) demo_tree = (Panic, demo_tree)"
  using link_through_itself_overflows [of demo_tree 5 "''s/x''" "''s''" "''x''" "[]" 0 demo_inode 1000000]
  by (simp add: demo_simps)

theorem open_fullpath_witness:
  "fullpath demo_tree 4 = ''/d/f'' \<and> open_path demo_inode 2 ''/d/f'' 0 demo_tree = (Ok 4, demo_tree)"
proof -
  have a: "rev (ancestors demo_tree 4) = [0, 1, 4]" and f: "fullpath demo_tree 4 = ''/d/f''"
    by (simp_all add: ancestors_def fullpath_def demo_simps eval_nat_numeral)
  have "chain demo_inode demo_tree 0 [1, 4]" by (simp add: demo_simps)
  from open_fullpath [OF a this, of 0] f show ?thesis by (simp add: numeral_2_eq_2)
qed

end
