(* ===== verification/Fs_Store.thy ===== *)
theory Fs_Store
  imports Fs_Tree
begin

text \<open>
  The store of directory nodes stays in order under every operation: no node is lost or moved, parents
  are older than their children, and the mounts of a node, shadowed ones included, are live nodes. An
  operation is followed through its error and panic paths for an arbitrary implementation of the inode
  trait; the mutual recursion of opening is handled by its induction rule.
\<close>

section \<open>The store invariant\<close>

text \<open>The nodes that the contents of a node keep alive: its mounts, and those of what it shadows.\<close>

fun refs :: "'i inner \<Rightarrow> nat set" where
  "refs (Inner mt n ms op c sh) = snd ` set ms \<union> (case sh of None \<Rightarrow> {} | Some x \<Rightarrow> refs x)"

definition alive :: "('i, 's) tree \<Rightarrow> nat set" where
  "alive st = {n. nodes st n \<noteq> None}"

definition tree_inv :: "('i, 's) tree \<Rightarrow> bool" where
  "tree_inv st \<longleftrightarrow> tree_ok st \<and> (\<forall>n. refs (inner_of st n) \<subseteq> alive st)"

text \<open>One state follows another: the invariant holds, and no node is lost or moved.\<close>

definition evolves :: "('i, 's) tree \<Rightarrow> ('i, 's) tree \<Rightarrow> bool" where
  "evolves st st' \<longleftrightarrow> tree_inv st' \<and> (\<forall>n\<in>alive st. n \<in> alive st' \<and> parent_of st' n = parent_of st n)"

lemma refs_eq: "refs x = snd ` set (mounted x) \<union> (case shadowed x of None \<Rightarrow> {} | Some y \<Rightarrow> refs y)"
  by (cases x) simp

lemma refs_empty [simp]: "refs empty_inner = {}" "refs (Inner mt n [] op c None) = {}"
  by (simp_all add: empty_inner_def)

lemma refs_set [simp]:
  "refs (set_name n x) = refs x" "refs (set_opened m x) = refs x" "refs (set_cache c x) = refs x"
  by (simp_all add: refs_eq [of "set_name n x"] refs_eq [of "set_opened m x"] refs_eq [of "set_cache c x"] refs_eq [of x])

lemma bt_insert_set: "set (bt_insert k v m) \<subseteq> insert (k, v) (set m)"
  by (induction m) (auto split: if_splits)

lemma bt_remove_set: "set (bt_remove k m) \<subseteq> set m"
  by (induction m) (auto split: if_splits)

lemma bt_get_mem: "bt_get k m = Some v \<Longrightarrow> v \<in> snd ` set m"
  by (induction m) (force split: if_splits)+

lemma refs_mounted:
  assumes "refs x \<subseteq> A" "snd ` set m \<subseteq> A"
  shows "refs (set_mounted m x) \<subseteq> A"
  using assms refs_eq [of x] refs_eq [of "set_mounted m x"] by auto

lemma refs_insert: "refs x \<subseteq> A \<Longrightarrow> v \<in> A \<Longrightarrow> refs (set_mounted (bt_insert k v (mounted x)) x) \<subseteq> A"
  using image_mono [OF bt_insert_set, of snd k v "mounted x"] refs_eq [of x] by (intro refs_mounted) auto

lemma refs_remove: "refs x \<subseteq> A \<Longrightarrow> refs (set_mounted (bt_remove k (mounted x)) x) \<subseteq> A"
  using image_mono [OF bt_remove_set, of snd k "mounted x"] refs_eq [of x] by (intro refs_mounted) auto

lemma refs_shadow: "refs x \<subseteq> A \<Longrightarrow> refs y \<subseteq> A \<Longrightarrow> refs (set_shadowed (Some y) x) \<subseteq> A"
  "refs x \<subseteq> A \<Longrightarrow> refs (set_shadowed None x) \<subseteq> A" "refs x \<subseteq> A \<Longrightarrow> shadowed x = Some z \<Longrightarrow> refs z \<subseteq> A"
  using refs_eq [of x] refs_eq [of "set_shadowed (Some y) x"] refs_eq [of "set_shadowed None x"] by auto

lemma mounted_alive: "tree_inv st \<Longrightarrow> bt_get k (mounted (inner_of st n)) = Some c \<Longrightarrow> c \<in> alive st"
  using refs_eq [of "inner_of st n"] bt_get_mem [of k "mounted (inner_of st n)" c] by (auto simp: tree_inv_def)

lemma evolves_inv: "evolves st st' \<Longrightarrow> tree_inv st'"
  by (simp add: evolves_def)

lemma evolves_alive: "evolves st st' \<Longrightarrow> n \<in> alive st \<Longrightarrow> n \<in> alive st'"
  by (auto simp: evolves_def)

lemma evolves_refl: "tree_inv st \<Longrightarrow> evolves st st"
  by (simp add: evolves_def)

lemma evolves_trans: "evolves st st' \<Longrightarrow> evolves st' st'' \<Longrightarrow> evolves st st''"
  by (auto simp: evolves_def)

lemma alive_set_inner [simp]: "alive (set_inner n x st) = alive st"
  by (simp add: alive_def)

lemma inner_of_set_cases: "inner_of (set_inner n x st) m = (if m = n \<and> n \<in> alive st then x else inner_of st m)"
  by (auto simp: alive_def inner_of_def set_inner_def split: option.splits)

lemma tree_ok_set_inner: "tree_ok st \<Longrightarrow> tree_ok (set_inner n x st)"
  by (auto simp: tree_ok_def set_inner_def split: option.splits)

lemma evolves_set_inner: "tree_inv st \<Longrightarrow> refs x \<subseteq> alive st \<Longrightarrow> evolves st (set_inner n x st)"
  by (auto simp: evolves_def tree_inv_def tree_ok_set_inner inner_of_set_cases)

lemma inv_refs: "tree_inv st \<Longrightarrow> refs (inner_of st n) \<subseteq> alive st"
  by (simp add: tree_inv_def)

lemma evolves_new:
  assumes "tree_inv st" "refs x \<subseteq> alive st" "\<And>q. p = Some q \<Longrightarrow> q \<in> alive st" "new_node p x st = (n, st')"
  shows "evolves st st'" "n \<in> alive st'" "inner_of st' n = x" "parent_of st' n = p" "k \<noteq> n \<Longrightarrow> inner_of st' k = inner_of st k"
    "n \<notin> alive st"
proof -
  have st': "nodes st' k = (if k = fresh st then Some \<lparr>parent = p, inner = x\<rparr> else nodes st k)" "n = fresh st"
    "fresh st' = Suc (fresh st)" for k
    using assms(4) by (auto simp: new_node_def)
  have dead: "nodes st (fresh st) = None" using assms(1) by (simp add: tree_inv_def tree_ok_def)
  have al: "alive st' = insert (fresh st) (alive st)" by (auto simp: alive_def st')
  have "tree_ok st'"
    unfolding tree_ok_def
  proof (intro conjI allI impI)
    fix m assume "fresh st' \<le> m"
    then show "nodes st' m = None" using assms(1) by (auto simp: st' tree_inv_def tree_ok_def)
  next
    fix m y q assume m: "nodes st' m = Some y" "parent y = Some q"
    show "q < m"
    proof (cases "m = fresh st")
      case True
      then have "nodes st q \<noteq> None" using m assms(3) by (auto simp: st' alive_def)
      then show ?thesis using True assms(1) by (meson not_le tree_inv_def tree_ok_def)
    next
      case False
      then show ?thesis using m assms(1) by (auto simp: st' tree_inv_def tree_ok_def)
    qed
    show "nodes st' q \<noteq> None"
      using m assms(1,3) by (auto simp: st' tree_inv_def tree_ok_def alive_def split: if_splits)
  qed
  moreover have "refs (inner_of st' m) \<subseteq> alive st'" for m
    using assms(1,2) al by (auto simp: inner_of_def st' tree_inv_def split: if_splits)
  ultimately show "evolves st st'"
    using al dead by (auto simp: evolves_def tree_inv_def parent_of_def st' alive_def)
  show "n \<in> alive st'" "inner_of st' n = x" "parent_of st' n = p" "n \<notin> alive st"
    using dead by (simp_all add: al st' inner_of_def parent_of_def alive_def)
  show "k \<noteq> n \<Longrightarrow> inner_of st' k = inner_of st k" by (simp add: inner_of_def st')
qed

lemma inodes_update [simp]:
  "inner_of (st\<lparr>inodes := s\<rparr>) = inner_of st" "parent_of (st\<lparr>inodes := s\<rparr>) = parent_of st"
  "alive (st\<lparr>inodes := s\<rparr>) = alive st" "tree_ok (st\<lparr>inodes := s\<rparr>) = tree_ok st"
  by (simp_all add: inner_of_def [abs_def] parent_of_def [abs_def] alive_def tree_ok_def)

lemma evolves_inodes: "tree_inv st \<Longrightarrow> on_inodes f st = (r, st') \<Longrightarrow> evolves st st'"
  by (clarsimp simp: on_inodes_def evolves_def tree_inv_def split: prod.splits)

lemma evolves_shadow:
  assumes "tree_inv st" "shadow_with m new st = (b, st')"
  shows "evolves st st'"
proof (cases "m = new")
  case True
  then show ?thesis using assms by (simp add: shadow_with_def evolves_refl)
next
  case False
  have e: "evolves st (set_inner new empty_inner st)" by (rule evolves_set_inner) (use assms in auto)
  have r: "refs (inner_of st new) \<subseteq> alive st" "refs (inner_of (set_inner new empty_inner st) m) \<subseteq> alive st"
    using inv_refs [OF assms(1)] False by (simp_all add: inner_of_set_cases)
  have "\<exists>x. st' = set_inner m x (set_inner new empty_inner st) \<and> refs x \<subseteq> alive st"
    using assms(2) False r by (auto simp: shadow_with_def Let_def split: if_splits)
      (rule exI, rule conjI, rule refl, rule refs_shadow(1), simp, simp)+
  then obtain x where "st' = set_inner m x (set_inner new empty_inner st)" "refs x \<subseteq> alive st" by blast
  then show ?thesis using evolves_trans [OF e evolves_set_inner [OF evolves_inv [OF e]]] by simp
qed

lemma evolves_restore:
  assumes "tree_inv st" "restore_shadow m st = (r, st')" "m \<in> alive st"
  shows "evolves st st'"
proof (cases "shadowed (inner_of st m)")
  case None
  then show ?thesis using assms by (simp add: restore_shadow_def evolves_refl Let_def)
next
  case (Some below)
  have b: "refs below \<subseteq> alive st" "refs (inner_of st m) \<subseteq> alive st"
    using refs_shadow(3) [OF inv_refs [OF assms(1)] Some] inv_refs [OF assms(1)] by auto
  obtain now sh n where x: "refs now \<subseteq> alive st" "refs sh \<subseteq> alive st"
    "new_node (parent_of st m) (set_shadowed None sh) (set_inner m now st) = (n, st')"
  proof (cases "node_name (inner_of st m) \<noteq> node_name below")
    case True
    then show thesis
      using that [of "set_name (node_name (inner_of st m)) below" "set_name (node_name below) (inner_of st m)"] assms(2) Some b
      by (auto simp: restore_shadow_def Let_def split: prod.splits)
  next
    case False
    then show thesis
      using that [of below "inner_of st m"] assms(2) Some b
      by (auto simp: restore_shadow_def Let_def split: prod.splits)
  qed
  have e: "evolves st (set_inner m now st)" by (rule evolves_set_inner [OF assms(1) x(1)])
  have "q \<in> alive st" if "parent_of st m = Some q" for q
    using that assms(1) by (auto simp: parent_of_def tree_inv_def tree_ok_def alive_def split: option.splits)
  then show ?thesis
    using evolves_trans [OF e evolves_new(1) [OF evolves_inv [OF e] _ _ x(3)]] refs_shadow(2) [OF x(2)] by auto
qed

text \<open>An operation keeps the store in order; one that answers a node answers a live one.\<close>

definition keeps :: "('i, 's) tree \<Rightarrow> ('a, 'e) outcome \<times> ('i, 's) tree \<Rightarrow> bool" where
  "keeps st res \<longleftrightarrow> evolves st (snd res)"

definition gives :: "('i, 's) tree \<Rightarrow> (nat, 'e) outcome \<times> ('i, 's) tree \<Rightarrow> bool" where
  "gives st res \<longleftrightarrow> keeps st res \<and> (\<forall>n. fst res = Ok n \<longrightarrow> n \<in> alive (snd res))"

lemma keeps_same: "tree_inv st \<Longrightarrow> keeps st (r, st)"
  by (simp add: keeps_def evolves_refl)

lemma keeps_step: "evolves st st' \<Longrightarrow> keeps st' res \<Longrightarrow> keeps st res"
  by (auto simp: keeps_def intro: evolves_trans)

lemma gives_step: "evolves st st' \<Longrightarrow> gives st' res \<Longrightarrow> gives st res"
  by (auto simp: gives_def intro: keeps_step)

lemma gives_keeps: "gives st res \<Longrightarrow> keeps st res"
  by (simp add: gives_def)

lemma keeps_sbind:
  assumes "keeps st x" "\<And>a s. x = (Ok a, s) \<Longrightarrow> keeps s (f a s)"
  shows "keeps st (sbind x f)"
proof (cases x)
  case (Pair r s)
  then show ?thesis
    using assms keeps_step [of st s "f _ s"] by (cases r) (auto simp: keeps_def)
qed

lemma gives_sbind:
  assumes "keeps st x" "\<And>a s. x = (Ok a, s) \<Longrightarrow> gives s (f a s)"
  shows "gives st (sbind x f)"
proof (cases x)
  case (Pair r s)
  then show ?thesis
    using assms gives_step [of st s "f _ s"] by (cases r) (auto simp: keeps_def gives_def)
qed

lemma keeps_inodes: "tree_inv st \<Longrightarrow> keeps st (on_inodes f st)"
  using evolves_inodes [of st f] by (cases "on_inodes f st") (auto simp: keeps_def)

lemma keeps_set: "tree_inv st \<Longrightarrow> refs x \<subseteq> alive st \<Longrightarrow> keeps st (r, set_inner n x st)"
  by (simp add: keeps_def evolves_set_inner)

lemma gives_mount_internal:
  assumes "tree_inv st" "node \<in> alive st"
  shows "gives st (mount_internal self node name st)"
proof (cases "bt_get name (mounted (inner_of st self))")
  case None
  then show ?thesis
    using assms refs_insert [OF inv_refs [OF assms(1)] assms(2), of name self]
    by (simp add: mount_internal_def Let_def gives_def keeps_set)
next
  case (Some m)
  obtain b st' where s: "shadow_with m node st = (b, st')" by (cases "shadow_with m node st")
  have "evolves st st'" by (rule evolves_shadow [OF assms(1) s])
  then show ?thesis
    using Some s mounted_alive [OF assms(1) Some] by (simp add: mount_internal_def Let_def gives_def keeps_def evolves_alive)
qed

lemma gives_mount_as: "tree_inv st \<Longrightarrow> node \<in> alive st \<Longrightarrow> gives st (mount_as self node name st)"
  by (simp add: mount_as_def gives_mount_internal)

lemma from_inode_new:
  assumes "tree_inv st" "self \<in> alive st" "from_inode I (Some self) i nm st = (n, st')"
  shows "evolves st st'" "n \<in> alive st'" "self \<in> alive st'"
proof -
  obtain x where x: "new_node (Some self) x st = (n, st')" "refs x = {}"
    using assms(3) by (auto simp: from_inode_def)
  show "evolves st st'" "n \<in> alive st'"
    using evolves_new(1,2) [OF assms(1) _ _ x(1)] x(2) assms(2) by auto
  then show "self \<in> alive st'" using assms(2) by (simp add: evolves_alive)
qed

lemma gives_mount_empty:
  assumes "tree_inv st" "self \<in> alive st"
  shows "gives st (mount_empty self name st)"
proof -
  obtain n st' where n: "new_node (Some self) (Inner Empty name [] [] [] None) st = (n, st')" by (metis surj_pair)
  have e: "evolves st st'" "n \<in> alive st'"
    using evolves_new(1,2) [OF assms(1) _ _ n] assms(2) by auto
  then show ?thesis
    using gives_step [OF e(1) gives_mount_internal [OF evolves_inv [OF e(1)] e(2)]] n
    by (simp add: mount_empty_def from_empty_def)
qed

lemma gives_mount_err: "gives st x \<Longrightarrow> gives st (mount_err x)"
  by (cases x rule: mount_err.cases) (auto simp: gives_def keeps_def)

lemma gives_umount_at:
  assumes "tree_inv st"
  shows "gives st (umount_at self name st)"
proof (cases "bt_get name (mounted (inner_of st self))")
  case None
  then show ?thesis using assms by (simp add: umount_at_def gives_def keeps_same)
next
  case (Some u)
  let ?x = "inner_of st self"
  let ?st = "set_inner self (set_mounted (bt_remove name (mounted ?x)) ?x) st"
  have e: "evolves st ?st" by (rule evolves_set_inner [OF assms refs_remove [OF inv_refs [OF assms]]])
  have u: "u \<in> alive st" by (rule mounted_alive [OF assms Some])
  obtain r st' where r: "restore_shadow u ?st = (r, st')" by (cases "restore_shadow u ?st")
  have e': "evolves ?st st'" by (rule evolves_restore [OF evolves_inv [OF e] r]) (simp add: u)
  have u': "u \<in> alive st'" using evolves_alive [OF e'] u by simp
  have "gives st' (Ok u :: (nat, MountError) outcome, set_inner self (set_mounted (bt_insert name u (mounted (inner_of st' self))) (inner_of st' self)) st')"
    using refs_insert [OF inv_refs [OF evolves_inv [OF e']] u'] u' evolves_inv [OF e'] by (simp add: gives_def keeps_set)
  then have "gives st (Ok u :: (nat, MountError) outcome, set_inner self (set_mounted (bt_insert name u (mounted (inner_of st' self))) (inner_of st' self)) st')"
    by (rule gives_step [OF e gives_step [OF e']])
  moreover have "gives st (Ok u :: (nat, MountError) outcome, ?st)" using e u by (simp add: gives_def keeps_def)
  ultimately show ?thesis using Some r by (simp add: umount_at_def Let_def)
qed

lemma keeps_removing: "tree_inv st \<Longrightarrow> keeps st (removing I n st)"
  "tree_inv st \<Longrightarrow> keeps st (renaming I n nm st)"
  by (auto simp: removing_def renaming_def keeps_inodes keeps_same split: option.splits)

lemma keeps_close:
  assumes "tree_inv st"
  shows "keeps st (node_close I self name st)"
proof -
  let ?x = "inner_of st self"
  let ?st = "set_inner self (set_mounted (bt_remove name (mounted ?x)) (set_opened (bt_remove name (opened ?x)) ?x)) st"
  let ?um = "bt_get name (mounted ?x)"
  have "refs (set_mounted (bt_remove name (mounted ?x)) (set_opened (bt_remove name (opened ?x)) ?x)) \<subseteq> alive st"
    using refs_remove [of "set_opened (bt_remove name (opened ?x)) ?x" "alive st" name] inv_refs [OF assms] by simp
  then have e: "evolves st ?st" by (rule evolves_set_inner [OF assms])
  let ?res = "case ?um of None \<Rightarrow> (Ok (), ?st) | Some u \<Rightarrow> removing I u ?st"
  obtain r st' where r: "?res = (r, st')" by (metis surj_pair)
  have "keeps ?st ?res" using keeps_removing(1) [OF evolves_inv [OF e]] keeps_same [OF evolves_inv [OF e]] by (auto split: option.splits)
  then have e': "evolves ?st st'" using r by (simp add: keeps_def)
  note i' = evolves_inv [OF e']
  have "u \<in> alive st'" if "?um = Some u" for u
    using evolves_alive [OF e', of u] mounted_alive [OF assms that] by simp
  then have k1: "evolves st' (case ?um of None \<Rightarrow> st' | Some u \<Rightarrow>
      set_inner self (set_mounted (bt_insert name u (mounted (inner_of st' self))) (inner_of st' self)) st')"
    using refs_insert [OF inv_refs [OF i']] i' by (cases ?um) (simp_all add: evolves_refl evolves_set_inner)
  have k2: "evolves st' (set_inner self (set_cache (bt_remove name (children_cache (inner_of st' self))) (inner_of st' self)) st')"
    using inv_refs [OF i'] by (intro evolves_set_inner [OF i']) simp
  have "node_close I self name st = (case r of
      Panic \<Rightarrow> (Panic, st')
    | Err err \<Rightarrow> (Err err, case ?um of None \<Rightarrow> st' | Some u \<Rightarrow>
        set_inner self (set_mounted (bt_insert name u (mounted (inner_of st' self))) (inner_of st' self)) st')
    | Ok _ \<Rightarrow> (Ok (bt_get name (opened ?x) \<noteq> None, ?um \<noteq> None),
        set_inner self (set_cache (bt_remove name (children_cache (inner_of st' self))) (inner_of st' self)) st'))"
    unfolding node_close_def Let_def r prod.case ..
  then have "keeps st' (node_close I self name st)"
    using k1 k2 i' by (cases r) (simp_all add: keeps_def evolves_refl)
  then show ?thesis by (rule keeps_step [OF evolves_trans [OF e e']])
qed

lemma gives_here: "tree_inv st \<Longrightarrow> n \<in> alive st \<Longrightarrow> gives st (Ok n, st)" "tree_inv st \<Longrightarrow> gives st (Err e, st)"
  "tree_inv st \<Longrightarrow> gives st (Panic, st)"
  by (simp_all add: gives_def keeps_same)

lemma gives_open_named:
  assumes "tree_inv st" "self \<in> alive st"
  shows "gives st (open_named I self name st)"
proof -
  let ?x = "inner_of st self"
  let ?src = "case bt_get name (children_cache ?x) of
      Some cached \<Rightarrow> (Ok cached, set_inner self (set_cache (bt_remove name (children_cache ?x)) ?x) st)
    | None \<Rightarrow> (case as_inode (meta ?x) of
        Some inode \<Rightarrow> on_inodes (in_lookup I inode name) st | None \<Rightarrow> (Err NotFound, st))"
  let ?f = "\<lambda>inode st. let (n, st) = from_inode I (Some self) inode (Some name) st; x = inner_of st self
      in (Ok n :: (nat, FileSystemError) outcome, set_inner self (set_opened (bt_insert name n (opened x)) x) st)"
  have k: "keeps st ?src"
    using assms(1) inv_refs [OF assms(1), of self]
    by (cases "bt_get name (children_cache ?x)"; cases "as_inode (meta ?x)")
      (simp_all add: keeps_inodes keeps_same keeps_set)
  have f: "gives s (?f i s :: (nat, FileSystemError) outcome \<times> _)" if "tree_inv s" "self \<in> alive s" for i s
  proof -
    obtain n s' where n: "from_inode I (Some self) i (Some name) s = (n, s')" by (metis surj_pair)
    note e = from_inode_new [OF that n]
    have "gives s' (Ok n :: (nat, FileSystemError) outcome, set_inner self (set_opened (bt_insert name n (opened (inner_of s' self))) (inner_of s' self)) s')"
      using e(2) inv_refs [OF evolves_inv [OF e(1)], of self] evolves_inv [OF e(1)] by (simp add: gives_def keeps_set)
    from gives_step [OF e(1) this] show ?thesis using n by (simp add: Let_def)
  qed
  have src: "gives st (sbind ?src ?f)"
  proof (rule gives_sbind [OF k])
    fix a s assume s: "?src = (Ok a, s)"
    from k have e: "evolves st s" unfolding s by (simp add: keeps_def)
    show "gives s (?f a s)" by (rule f [OF evolves_inv [OF e] evolves_alive [OF e assms(2)]])
  qed
  show ?thesis
  proof (cases "bt_get name (mounted ?x)")
    case (Some m)
    then show ?thesis
      using gives_here(1) [OF assms(1) mounted_alive [OF assms(1) Some]] by (simp add: open_named_def)
  next
    case nm: None
    show ?thesis
    proof (cases "Option.bind (bt_get name (opened ?x)) (upgrade st)")
      case (Some n)
      then have "n \<in> alive st" by (auto simp: bind_eq_Some_conv upgrade_def alive_def split: if_splits)
      then show ?thesis using gives_here(1) [OF assms(1)] nm Some by (simp add: open_named_def)
    next
      case None
      have "open_named I self name st = sbind ?src ?f"
        by (simp only: open_named_def Let_def nm None option.case)
      then show ?thesis using src by (simp only:)
    qed
  qed
qed

lemma parent_alive: "tree_inv st \<Longrightarrow> parent_of st n = Some p \<Longrightarrow> p \<in> alive st"
  by (auto simp: parent_of_def tree_inv_def tree_ok_def alive_def split: option.splits)

lemma givesD: "gives st (r, st') \<Longrightarrow> evolves st st'" "gives st (Ok n, st') \<Longrightarrow> n \<in> alive st'"
  by (simp_all add: gives_def keeps_def)

definition live_root :: "nat option \<Rightarrow> ('i, 's) tree \<Rightarrow> bool" where
  "live_root root st \<longleftrightarrow> (\<forall>r. root = Some r \<longrightarrow> r \<in> alive st)"

lemma live_root_step: "evolves st st' \<Longrightarrow> live_root root st \<Longrightarrow> live_root root st'"
  by (auto simp: live_root_def evolves_alive)

lemma open_start_alive:
  assumes "tree_inv st" "n \<in> alive st" "live_root root st"
    "open_start (case root of None \<Rightarrow> n | Some r \<Rightarrow> r) target (parent_of st n) = Some s"
  shows "s \<in> alive st"
  using assms parent_alive [OF assms(1)]
  by (cases root) (auto simp: open_start_def live_root_def split: if_splits)

lemma gives_open:
  shows "tree_inv st \<Longrightarrow> n \<in> alive st \<Longrightarrow> gives st (open_child I d n name st)"
    and "tree_inv st \<Longrightarrow> n \<in> alive st \<Longrightarrow> live_root root st \<Longrightarrow> gives st (open_parts I d n root parts st)"
    and "tree_inv st \<Longrightarrow> n \<in> alive st \<Longrightarrow> live_root root st \<Longrightarrow> gives st (resolve_loop I d k n root st)"
proof (induction I d n name st and I d n root parts st and I d k n root st rule: open_child_open_parts_resolve_loop.induct)
  case (2 I d self name st)
  have nr: "live_root None st" by (simp add: live_root_def)
  consider "SEPARATOR \<in> set name" | "SEPARATOR \<notin> set name" "name = ''.'' \<or> name = []"
    | "SEPARATOR \<notin> set name" "\<not> (name = ''.'' \<or> name = [])" "name = ''..''"
    | "SEPARATOR \<notin> set name" "\<not> (name = ''.'' \<or> name = [])" "name \<noteq> ''..''" by blast
  then show ?case
  proof cases
    case 1
    then show ?thesis using gives_here(3) [OF 2(2)] by simp
  next
    case a: 2
    then show ?thesis using 2(1) [OF a 2(2,3) nr] by (simp only: open_child.simps if_False if_True)
  next
    case 3
    have "(case parent_of st self of None \<Rightarrow> self | Some p \<Rightarrow> p) \<in> alive st"
      using parent_alive [OF 2(2), of self] 2(3) by (auto split: option.splits)
    then have "gives st (Ok (case parent_of st self of None \<Rightarrow> self | Some p \<Rightarrow> p) :: (nat, FileSystemError) outcome, st)"
      by (rule gives_here(1) [OF 2(2)])
    then show ?thesis using 3 by simp
  next
    case 4
    then show ?thesis using gives_open_named [OF 2(2,3)] by (simp only: open_child.simps if_False)
  qed
next
  case (5 I d current root part parts st)
  note i = 5(4) and al = 5(5) and lr = 5(6)
  have r: "gives st (resolve_loop I d RESOLUTION_LIMIT current root st)" by (rule 5(1) [OF i al lr])
  show ?case
    unfolding open_parts.simps
  proof (rule gives_sbind [OF gives_keeps [OF r]])
    fix c s assume "resolve_loop I d RESOLUTION_LIMIT current root st = (Ok c, s)"
    with r have "gives st (Ok c :: (nat, FileSystemError) outcome, s)" by simp
    then have c: "evolves st s" "c \<in> alive s" by (rule givesD)+
    have o: "gives s (open_child I d c part s)" by (rule 5(2) [OF evolves_inv [OF c(1)] c(2)])
    show "gives s (sbind (open_child I d c part s) (\<lambda>n st. open_parts I (Suc d) n root parts st))"
    proof (rule gives_sbind [OF gives_keeps [OF o]])
      fix n s' assume "open_child I d c part s = (Ok n, s')"
      with o have "gives s (Ok n :: (nat, FileSystemError) outcome, s')" by simp
      then have n: "evolves s s'" "n \<in> alive s'" by (rule givesD)+
      show "gives s' (open_parts I (Suc d) n root parts s')"
        by (rule 5(3) [OF evolves_inv [OF n(1)] n(2) live_root_step [OF n(1) live_root_step [OF c(1) lr]]])
    qed
  qed
next
  case (8 I d k current root st)
  note i = 8(3) and al = 8(4) and lr = 8(5)
  have pl: "live_root (parent_of st current) st" using parent_alive [OF i] by (auto simp: live_root_def)
  show ?case
  proof (cases "resolve_link I current st")
    case None
    then show ?thesis using gives_here(1) [OF i al] by simp
  next
    case l: (Some target)
    show ?thesis
    proof (cases "open_start (case root of None \<Rightarrow> current | Some r \<Rightarrow> r) target (parent_of st current)")
      case None
      then show ?thesis using gives_here(2) [OF i] l by simp
    next
      case s: (Some start)
      have sa: "start \<in> alive st" by (rule open_start_alive [OF i al lr s])
      obtain x y where x: "open_parts I d start (parent_of st current) (path_parts target) st = (x, y)" by (metis surj_pair)
      have o: "gives st (x, y)" using 8(1) [OF l s i sa pl] x by simp
      have e: "evolves st y" using givesD(1) [OF o] .
      show ?thesis
      proof (cases x)
        case n: (Ok n)
        have "gives y (resolve_loop I (Suc d) k n root y)"
          using 8(2) [OF l s x [symmetric] n evolves_inv [OF e] _ live_root_step [OF e lr]] givesD(2) o n by blast
        then have "gives st (resolve_loop I (Suc d) k n root y)" by (rule gives_step [OF e])
        then show ?thesis using l s x n by simp
      next
        case (Err err)
        then show ?thesis using l s x gives_step [OF e gives_here(2) [OF evolves_inv [OF e]]] by simp
      next
        case Panic
        then show ?thesis using l s x gives_step [OF e gives_here(3) [OF evolves_inv [OF e]]] by simp
      qed
    qed
  qed
qed (simp_all add: gives_here)

lemma gives_open_raw:
  assumes "tree_inv st" "self \<in> alive st" "live_root root st"
  shows "gives st (open_raw I d self path root st)" "gives st (node_open I d self path root st)"
proof -
  have s: "s \<in> alive st" if "open_start self path root = Some s" for s
    using that assms(2,3) by (auto simp: open_start_def live_root_def split: if_splits)
  show o: "gives st (open_raw I d self path root st)"
    using gives_open(2) [OF assms(1) s assms(3)] gives_here(2) [OF assms(1)]
    by (cases "open_start self path root") (simp_all add: open_raw_def)
  show "gives st (node_open I d self path root st)"
    unfolding node_open_def resolve_all_link_def
  proof (rule gives_sbind [OF gives_keeps [OF o]])
    fix n s assume "open_raw I d self path root st = (Ok n, s)"
    with o have "gives st (Ok n :: (nat, FileSystemError) outcome, s)" by simp
    then have e: "evolves st s" "n \<in> alive s" by (rule givesD)+
    show "gives s (resolve_loop I d RESOLUTION_LIMIT n root s)"
      by (rule gives_open(3) [OF evolves_inv [OF e(1)] e(2) live_root_step [OF e(1) assms(3)]])
  qed
qed

lemma gives_wrap:
  assumes "tree_inv st" "self \<in> alive st" "wrap_opened I self i st = (n, st')"
  shows "evolves st st'" "n \<in> alive st'"
proof -
  obtain s where s: "from_inode I (Some self) i None st = (n, s)"
    "st' = set_inner self (set_opened (bt_insert (name_internal s n) n (opened (inner_of s self))) (inner_of s self)) s"
    using assms(3) by (auto simp: wrap_opened_def Let_def split: prod.splits)
  note e = from_inode_new [OF assms(1,2) s(1)]
  have "evolves s st'"
    unfolding s(2) using inv_refs [OF evolves_inv [OF e(1)], of self] by (intro evolves_set_inner [OF evolves_inv [OF e(1)]]) simp
  then show "evolves st st'" "n \<in> alive st'" using evolves_trans [OF e(1)] evolves_alive e(2) by blast+
qed

lemma gives_make:
  assumes "tree_inv st" "self \<in> alive st"
    and "\<And>e st'. x = (Err e, st') \<Longrightarrow> evolves st st' \<Longrightarrow> gives st' (g e st')"
    and "keeps st x"
  shows "gives st (case x of
      (Ok made, st) \<Rightarrow> let (n, st) = wrap_opened I self made st in (Ok n, st)
    | (Err e, st) \<Rightarrow> g e st
    | (Panic, st) \<Rightarrow> (Panic, st))"
proof -
  obtain r s where x: "x = (r, s)" by (cases x)
  have e: "evolves st s" using assms(4) by (simp add: keeps_def x)
  note i = evolves_inv [OF e] and al = evolves_alive [OF e assms(2)]
  show ?thesis
  proof (cases r)
    case (Ok made)
    obtain n s' where w: "wrap_opened I self made s = (n, s')" by (metis surj_pair)
    have "gives s (Ok n, s')" using gives_wrap [OF i al w] by (simp add: gives_def keeps_def)
    from gives_step [OF e this] show ?thesis by (simp add: x Ok w)
  next
    case (Err err)
    then show ?thesis using gives_step [OF e assms(3) [OF _ e]] by (simp add: x)
  next
    case Panic
    then show ?thesis using gives_step [OF e gives_here(3) [OF i]] by (simp add: x)
  qed
qed

lemma gives_mkdir:
  assumes "tree_inv st" "self \<in> alive st"
  shows "gives st (mkdir I self name st)" "gives st (touch I self name st)"
proof -
  have mk: "gives st' (if e = AlreadyExists then (Err e, st') else mount_err (mount_empty self name st'))"
    if "evolves st st'" for e st'
    by (cases "e = AlreadyExists") (simp_all add: gives_here(2) [OF evolves_inv [OF that]]
      gives_mount_err [OF gives_mount_empty [OF evolves_inv [OF that] evolves_alive [OF that assms(2)]]])
  have tc: "gives st' (if e = AlreadyExists then (Err e, st') else (Err NotADirectory, st'))"
    if "evolves st st'" for e st'
    by (cases "e = AlreadyExists") (simp_all add: gives_here(2) [OF evolves_inv [OF that]])
  show "gives st (mkdir I self name st)"
  proof (cases "is_mounted (inner_of st self) name")
    case True
    then show ?thesis using gives_here(2) [OF assms(1)] by (simp add: mkdir_def)
  next
    case nm: False
    show ?thesis
    proof (cases "as_inode (meta (inner_of st self))")
      case None
      then show ?thesis using nm gives_mount_err [OF gives_mount_empty [OF assms]] by (simp add: mkdir_def)
    next
      case (Some inode)
      have "gives st (case on_inodes (in_mkdir I inode name) st of
          (Ok made, st) \<Rightarrow> let (n, st) = wrap_opened I self made st in (Ok n, st)
        | (Err e, st) \<Rightarrow> if e = AlreadyExists then (Err e, st) else mount_err (mount_empty self name st)
        | (Panic, st) \<Rightarrow> (Panic, st))"
        by (rule gives_make [OF assms _ keeps_inodes [OF assms(1)]]) (rule mk)
      then show ?thesis using nm Some by (simp add: mkdir_def)
    qed
  qed
  show "gives st (touch I self name st)"
  proof (cases "as_inode (meta (inner_of st self))")
    case None
    then show ?thesis using gives_here(2) [OF assms(1)] by (simp add: touch_def)
  next
    case (Some inode)
    have "gives st (case on_inodes (in_touch I inode name) st of
        (Ok made, st) \<Rightarrow> let (n, st) = wrap_opened I self made st in (Ok n, st)
      | (Err e, st) \<Rightarrow> if e = AlreadyExists then (Err e, st) else (Err NotADirectory, st)
      | (Panic, st) \<Rightarrow> (Panic, st))"
      by (rule gives_make [OF assms _ keeps_inodes [OF assms(1)]]) (rule tc)
    then show ?thesis using Some by (simp add: touch_def)
  qed
qed

lemma keeps_remove:
  assumes "tree_inv st"
  shows "keeps st (node_remove I self name st)" "keeps st (rmdir I self name st)"
proof -
  have c: "tree_inv s" if "node_close I self name st = (r, s)" for r s
    using keeps_close [OF assms, of I self name] that by (simp add: keeps_def evolves_inv)
  show "keeps st (node_remove I self name st)"
    unfolding node_remove_def
    by (rule keeps_sbind [OF keeps_close [OF assms]])
      (use c in \<open>auto simp: keeps_same keeps_inodes split: option.splits\<close>)
  show "keeps st (rmdir I self name st)"
    unfolding rmdir_def
    by (rule keeps_sbind [OF keeps_close [OF assms]])
      (use c in \<open>auto simp: keeps_same keeps_inodes split: option.splits\<close>)
qed

section \<open>Every operation keeps the store in order\<close>


lemma demo_inv: "tree_inv demo_tree"
proof -
  have al: "alive demo_tree = {0, 1, 2, 3, 4, 5, 6}" by (auto simp: alive_def demo_tree_def demo_node_def)
  have "refs (inner_of demo_tree n) \<subseteq> alive demo_tree" for n
    unfolding al by (auto simp: inner_of_def demo_tree_def demo_node_def)
  then show ?thesis by (simp add: tree_inv_def demo_ok)
qed


end
