(* ===== verification/Fs_File.thy ===== *)
theory Fs_File
  imports Fs_Tree
begin

text \<open>
  Open files and descriptor tables (libraries/filesystem-abstractions/src/file.rs). The metadata of
  an open file is its offset, its flags, the node and the cached directory entries; it is passed and
  returned. A file object is what \<^verbatim>\<open>IFile::metadata\<close> gives for it, the methods of the trait being its
  default bodies. The atomic offset wraps on \<^verbatim>\<open>fetch_add\<close> and \<^verbatim>\<open>fetch_sub\<close>.
\<close>

section \<open>Flags\<close>

type_synonym OpenFlags = usize

definition O_NONE :: OpenFlags where "O_NONE = 0"
definition O_WRONLY :: OpenFlags where "O_WRONLY = 1"
definition O_RDWR :: OpenFlags where "O_RDWR = 2"
definition O_CLOEXEC :: OpenFlags where "O_CLOEXEC = 0x80000"

definition flags_contains :: "OpenFlags \<Rightarrow> OpenFlags \<Rightarrow> bool" where
  "flags_contains fl x = (fl AND x = x)"

section \<open>File metadata\<close>

record file_metadata =
  open_offset :: usize
  open_flags :: OpenFlags
  fm_inode :: nat
  children_entries :: "directory_entry list option"

definition fm_open :: "nat \<Rightarrow> OpenFlags \<Rightarrow> usize \<Rightarrow> file_metadata" where
  "fm_open inode flags offset =
     \<lparr>open_offset = offset, open_flags = flags, fm_inode = inode, children_entries = None\<rparr>"

definition set_offset :: "usize \<Rightarrow> file_metadata \<Rightarrow> file_metadata" where
  "set_offset offset m = m\<lparr>open_offset := offset\<rparr>"

definition fm_set_flags :: "OpenFlags \<Rightarrow> file_metadata \<Rightarrow> file_metadata" where
  "fm_set_flags new_flags m = m\<lparr>open_flags := new_flags\<rparr>"

definition fm_offset :: "file_metadata \<Rightarrow> usize" where "fm_offset m = open_offset m"

definition fm_flags :: "file_metadata \<Rightarrow> OpenFlags" where "fm_flags m = open_flags m"

definition seek ::
  "('i, 's) iinode \<Rightarrow> ('i, 's) tree \<Rightarrow> i64 \<Rightarrow> usize \<Rightarrow> file_metadata \<Rightarrow> (bool \<times> file_metadata) option" where
  "seek I st offset whence m =
     (if whence = 0 then Some (True, set_offset offset m)
      else if whence = 1
      then (if 0 \<le> sint offset then Some (True, m\<lparr>open_offset := open_offset m + offset\<rparr>)
            else do { n \<leftarrow> chk_i64 (- sint offset); Some (True, m\<lparr>open_offset := open_offset m - n\<rparr>) })
      else if whence = 2
      then (let md = node_metadata I (fm_inode m) st
        in if im_entry_type md = File \<or> im_entry_type md = BlockDevice
           then do { e \<leftarrow> chk_i64 (sint (im_size md) + sint offset); Some (True, set_offset e m) }
           else Some (False, m))
      else Some (False, m))"

definition fm_read_dir ::
  "('i, 's) iinode \<Rightarrow> file_metadata \<times> ('i, 's) tree \<Rightarrow>
   directory_entry list option option \<times> file_metadata \<times> ('i, 's) tree" where
  "fm_read_dir I = (\<lambda>(m, st).
     case children_entries m of
       Some children \<Rightarrow> (Some (Some children), m, st)
     | None \<Rightarrow>
         (case read_dir I (fm_inode m) st of
            (Ok entries, st) \<Rightarrow> (Some (Some entries), m\<lparr>children_entries := Some entries\<rparr>, st)
          | (Err _, st) \<Rightarrow> (Some None, m, st)
          | (Panic, st) \<Rightarrow> (None, m, st)))"

section \<open>Files\<close>

type_synonym ifile = "file_metadata option"

definition can_read :: "ifile \<Rightarrow> bool" where "can_read f = (f \<noteq> None)"

definition can_write :: "ifile \<Rightarrow> bool" where
  "can_write f =
     (case f of
        None \<Rightarrow> False
      | Some m \<Rightarrow> flags_contains (fm_flags m) O_WRONLY \<or> flags_contains (fm_flags m) O_RDWR)"

definition file_flags :: "ifile \<Rightarrow> OpenFlags" where
  "file_flags f = (case f of None \<Rightarrow> O_NONE | Some m \<Rightarrow> fm_flags m)"

definition file_set_flags :: "OpenFlags \<Rightarrow> ifile \<Rightarrow> bool \<times> ifile" where
  "file_set_flags new_flags f =
     (case f of Some m \<Rightarrow> (True, Some (fm_set_flags new_flags m)) | None \<Rightarrow> (False, None))"

definition file_inode :: "ifile \<Rightarrow> nat option" where
  "file_inode f = map_option fm_inode f"

definition is_dir :: "('i, 's) iinode \<Rightarrow> ('i, 's) tree \<Rightarrow> ifile \<Rightarrow> bool option" where
  "is_dir I st f = do { n \<leftarrow> file_inode f; Some (im_entry_type (node_metadata I n st) = Directory) }"

text \<open>The offset moves by what was transferred; a failed transfer counts as zero bytes.\<close>

definition file_write ::
  "('i, 's) iinode \<Rightarrow> u8 list \<Rightarrow> ifile \<times> ('i, 's) tree \<Rightarrow> usize option \<times> ifile \<times> ('i, 's) tree" where
  "file_write I buf = (\<lambda>(f, st).
     case f of
       None \<Rightarrow> (Some 0, f, st)
     | Some m \<Rightarrow>
         (case node_writeat I (fm_inode m) (fm_offset m) buf st of
            (Ok written, st) \<Rightarrow>
              (case seek I st written 1 m of
                 Some (_, m) \<Rightarrow> (Some written, Some m, st)
               | None \<Rightarrow> (None, f, st))
          | (Err _, st) \<Rightarrow> (Some 0, f, st)
          | (Panic, st) \<Rightarrow> (None, f, st)))"

definition file_read ::
  "('i, 's) iinode \<Rightarrow> u8 list \<Rightarrow> ifile \<times> ('i, 's) tree \<Rightarrow>
   (usize \<times> u8 list) option \<times> ifile \<times> ('i, 's) tree" where
  "file_read I buf = (\<lambda>(f, st).
     case f of
       None \<Rightarrow> (Some (0, buf), f, st)
     | Some m \<Rightarrow>
         (case node_readat I (fm_inode m) (fm_offset m) buf st of
            (Ok (n, out), st) \<Rightarrow>
              (case seek I st n 1 m of
                 Some (_, m) \<Rightarrow> (Some (n, out), Some m, st)
               | None \<Rightarrow> (None, f, st))
          | (Err _, st) \<Rightarrow> (Some (0, buf), f, st)
          | (Panic, st) \<Rightarrow> (None, f, st)))"

definition file_pread ::
  "('i, 's) iinode \<Rightarrow> u8 list \<Rightarrow> u64 \<Rightarrow> ifile \<times> ('i, 's) tree \<Rightarrow>
   (usize \<times> u8 list) option \<times> ifile \<times> ('i, 's) tree" where
  "file_pread I buf offset = (\<lambda>(f, st).
     case f of
       None \<Rightarrow> (Some (0, buf), f, st)
     | Some m \<Rightarrow>
         (case node_readat I (fm_inode m) offset buf st of
            (Ok (n, out), st) \<Rightarrow> (Some (n, out), f, st)
          | (Err _, st) \<Rightarrow> (Some (0, buf), f, st)
          | (Panic, st) \<Rightarrow> (None, f, st)))"

definition file_pwrite ::
  "('i, 's) iinode \<Rightarrow> u8 list \<Rightarrow> u64 \<Rightarrow> ifile \<times> ('i, 's) tree \<Rightarrow> usize option \<times> ifile \<times> ('i, 's) tree" where
  "file_pwrite I buf offset = (\<lambda>(f, st).
     case f of
       None \<Rightarrow> (Some 0, f, st)
     | Some m \<Rightarrow>
         (case node_writeat I (fm_inode m) offset buf st of
            (Ok n, st) \<Rightarrow> (Some n, f, st)
          | (Err _, st) \<Rightarrow> (Some 0, f, st)
          | (Panic, st) \<Rightarrow> (None, f, st)))"

definition open_as_file :: "nat \<Rightarrow> OpenFlags \<Rightarrow> usize \<Rightarrow> ifile" where
  "open_as_file self flags offset = Some (fm_open self flags offset)"

section \<open>Descriptor tables\<close>

text \<open>A table holds shared file objects; \<^verbatim>\<open>'f\<close> is the type of their handles and \<^verbatim>\<open>flags\<close> gives the flags
  of one.\<close>

record 'f fd_table =
  fd_entries :: "'f option list"
  fd_capacity :: nat

definition FD_MAX_SIZE :: nat where "FD_MAX_SIZE = 1024"

definition fdt_new :: "'f fd_table" where
  "fdt_new = \<lparr>fd_entries = [], fd_capacity = FD_MAX_SIZE\<rparr>"

definition clone_for :: "'f fd_table \<Rightarrow> 'f fd_table option" where
  "clone_for t = do {
     let new = fdt_new\<lparr>fd_entries := fd_entries fdt_new @ drop 3 (fd_entries t)\<rparr>;
     assert_that (length (fd_entries t) = length (fd_entries new));
     Some new }"

definition clear_exec :: "('f \<Rightarrow> OpenFlags) \<Rightarrow> 'f fd_table \<Rightarrow> 'f fd_table" where
  "clear_exec flags t =
     t\<lparr>fd_entries :=
        map (\<lambda>entry. case entry of
               Some file \<Rightarrow> if flags_contains (flags file) O_CLOEXEC then None else entry
             | None \<Rightarrow> entry) (fd_entries t)\<rparr>"

definition fdt_get :: "'f fd_table \<Rightarrow> nat \<Rightarrow> 'f option" where
  "fdt_get t idx = (if idx < length (fd_entries t) then fd_entries t ! idx else None)"

definition fdt_set :: "nat \<Rightarrow> 'f \<Rightarrow> 'f fd_table \<Rightarrow> 'f fd_table option" where
  "fdt_set idx fd t =
     (if idx < length (fd_entries t) then Some (t\<lparr>fd_entries := (fd_entries t)[idx := Some fd]\<rparr>) else None)"

definition fdt_remove :: "nat \<Rightarrow> 'f fd_table \<Rightarrow> 'f fd_table" where
  "fdt_remove idx t =
     (if idx < length (fd_entries t) then t\<lparr>fd_entries := (fd_entries t)[idx := None]\<rparr> else t)"

fun first_free :: "nat \<Rightarrow> 'f option list \<Rightarrow> nat option" where
  "first_free idx [] = None"
| "first_free idx (entry # entries) = (if entry = None then Some idx else first_free (idx + 1) entries)"

definition allocate :: "'f \<Rightarrow> 'f fd_table \<Rightarrow> nat option \<times> 'f fd_table" where
  "allocate file t =
     (case first_free 0 (fd_entries t) of
        Some idx \<Rightarrow> (Some idx, t\<lparr>fd_entries := (fd_entries t)[idx := Some file]\<rparr>)
      | None \<Rightarrow>
          if fd_capacity t \<le> length (fd_entries t) then (None, t)
          else (Some (length (fd_entries t)), t\<lparr>fd_entries := fd_entries t @ [Some file]\<rparr>))"

definition allocate_at :: "'f \<Rightarrow> nat \<Rightarrow> 'f fd_table \<Rightarrow> nat option \<times> 'f fd_table" where
  "allocate_at file idx t =
     (if fd_capacity t \<le> idx then (None, t)
      else if length (fd_entries t) \<le> idx
      then (Some idx,
            t\<lparr>fd_entries :=
               (fd_entries t @ replicate (idx + 1 - length (fd_entries t)) None)[idx := Some file]\<rparr>)
      else if fd_entries t ! idx \<noteq> None then (None, t)
      else (Some idx, t\<lparr>fd_entries := (fd_entries t)[idx := Some file]\<rparr>))"

definition set_capacity :: "nat \<Rightarrow> 'f fd_table \<Rightarrow> 'f fd_table" where
  "set_capacity new_capacity t = t\<lparr>fd_capacity := new_capacity\<rparr>"

definition get_capacity :: "'f fd_table \<Rightarrow> nat" where "get_capacity t = fd_capacity t"

section \<open>Descriptors\<close>

lemma first_free_Some:
  "first_free k es = Some i \<Longrightarrow> k \<le> i \<and> i - k < length es \<and> es ! (i - k) = None \<and> (\<forall>j < i - k. es ! j \<noteq> None)"
proof (induction es arbitrary: k)
  case (Cons e es)
  show ?case
  proof (cases "e = None")
    case False
    then obtain y where "e = Some y" by auto
    then have "first_free (k + 1) es = Some i" using Cons.prems by simp
    from Cons.IH [OF this] False show ?thesis
      by (auto simp: nth_Cons' Suc_diff_le dest: less_imp_Suc_add)
  qed (use Cons.prems in auto)
qed simp

lemma first_free_None: "first_free k es = None \<longleftrightarrow> None \<notin> set es"
  by (induction es arbitrary: k) auto

text \<open>C27: \<^verbatim>\<open>allocate\<close> hands out the smallest free descriptor, changes no other one, and fails, changing
  nothing, exactly when no slot is free and the table has reached its capacity.\<close>

theorem allocate_correct:
  assumes "allocate f t = (r, t')"
  shows "(\<forall>i. r = Some i \<longrightarrow> fdt_get t i = None \<and> (\<forall>j<i. fdt_get t j \<noteq> None)
        \<and> (\<forall>j. fdt_get t' j = (if j = i then Some f else fdt_get t j)) \<and> fd_capacity t' = fd_capacity t)
    \<and> (r = None \<longleftrightarrow> None \<notin> set (fd_entries t) \<and> fd_capacity t \<le> length (fd_entries t))
    \<and> (r = None \<longrightarrow> t' = t)"
proof (cases "first_free 0 (fd_entries t)")
  case None
  then have "None \<notin> set (fd_entries t)" by (simp add: first_free_None)
  then show ?thesis
    using None assms by (auto simp: allocate_def fdt_get_def nth_append split: if_splits) (metis not_None_eq nth_mem)
next
  case (Some i)
  note f = first_free_Some [OF Some]
  have "None \<in> set (fd_entries t)" using f by (metis diff_zero nth_mem)
  moreover have "r = Some i" "t' = t\<lparr>fd_entries := (fd_entries t)[i := Some f]\<rparr>"
    using Some assms by (simp_all add: allocate_def)
  ultimately show ?thesis
    using f by (auto simp: fdt_get_def nth_list_update)
qed

theorem allocate_correct_witness:
  "allocate ''x'' \<lparr>fd_entries = [Some ''in'', None], fd_capacity = 2\<rparr> =
     (Some 1, \<lparr>fd_entries = [Some ''in'', Some ''x''], fd_capacity = 2\<rparr>)
   \<and> fdt_get \<lparr>fd_entries = [Some ''in'', None], fd_capacity = 2\<rparr> 1 = None"
proof -
  have a: "allocate ''x'' \<lparr>fd_entries = [Some ''in'', None], fd_capacity = 2\<rparr> =
     (Some 1, \<lparr>fd_entries = [Some ''in'', Some ''x''], fd_capacity = 2\<rparr>)" by (simp add: allocate_def)
  with allocate_correct [OF a] show ?thesis by simp
qed

text \<open>\<^verbatim>\<open>clone_for\<close> panics on every table that has an entry: the copy skips the first three entries of
  the table it copies but starts from an empty one, so the lengths that are compared differ.\<close>

theorem clone_for_panics:
  "clone_for t = (if fd_entries t = [] then Some fdt_new else None)"
  by (cases "fd_entries t") (auto simp: clone_for_def fdt_new_def assert_that_def)

end
