(* ===== verification/Loader.thy ===== *)
theory Loader
  imports Prelude
begin

text \<open>
  The parts of the program loader (libraries/linux-loader) that do not depend on the image format: the
  arguments, environment and auxiliary vector of a process with their limits (process.rs, auxv.rs), the
  parsing of a script header (shebang.rs), reading from a byte slice and the classification of errors
  (loader.rs). Strings are lists of bytes as characters; \<^verbatim>\<open>str::trim\<close> is modelled for the white space
  of ASCII. Numbers of arguments are naturals: they are lengths of vectors.
\<close>

section \<open>Errors\<close>

datatype LoadError = NotExecutable | OsMismatch | ArchMismatch | InsufficientMemory
  | UnableToReadExecutable | FailedToLoad | IncompleteExecutable | TooLarge | CanNotFindInterpreter
  | InvalidShebangString | NotElf | NotShebang | ArgumentCountExceeded | EnvironmentCountExceeded

fun is_format_determined :: "LoadError \<Rightarrow> bool" where
  "is_format_determined UnableToReadExecutable = False"
| "is_format_determined NotElf = False"
| "is_format_determined NotShebang = False"
| "is_format_determined _ = True"

section \<open>The auxiliary vector\<close>

text \<open>A key is its number; the vector is a map ordered by the keys.\<close>

type_synonym aux_vec = "(nat \<times> usize) list"

definition AT_NULL :: nat where "AT_NULL = 0"
definition AT_NOTELF :: nat where "AT_NOTELF = 10"
definition AT_PLATFORM :: nat where "AT_PLATFORM = 15"
definition AT_RANDOM :: nat where "AT_RANDOM = 25"

fun aux_get :: "nat \<Rightarrow> aux_vec \<Rightarrow> usize option" where
  "aux_get k [] = None"
| "aux_get k ((k', v) # m) = (if k = k' then Some v else aux_get k m)"

fun aux_insert :: "nat \<Rightarrow> usize \<Rightarrow> aux_vec \<Rightarrow> aux_vec" where
  "aux_insert k v [] = [(k, v)]"
| "aux_insert k v ((k', v') # m) =
     (if k = k' then (k, v) # m
      else if k < k' then (k, v) # (k', v') # m
      else (k', v') # aux_insert k v m)"

definition aux_new :: aux_vec where "aux_new = []"

text \<open>The entries from the largest key to the smallest, so that the null entry comes last.\<close>

definition aux_collect :: "aux_vec \<Rightarrow> (nat \<times> usize) list" where
  "aux_collect m = map (\<lambda>(k, v). (k, v)) (rev m)"

section \<open>The context of a process\<close>

record context_limit =
  limit_argv :: nat
  limit_envp :: nat

definition Unlimited :: context_limit where
  "Unlimited = \<lparr>limit_argv = 2 ^ 64 - 1, limit_envp = 2 ^ 64 - 1\<rparr>"

record process_context =
  ctx_argv :: "string list"
  ctx_envp :: "string list"
  ctx_auxv :: aux_vec
  ctx_limit :: context_limit

definition ctx_new :: process_context where
  "ctx_new = \<lparr>ctx_argv = [], ctx_envp = [], ctx_auxv = aux_new, ctx_limit = Unlimited\<rparr>"

definition ctx_new_limited :: "context_limit \<Rightarrow> process_context" where
  "ctx_new_limited l = \<lparr>ctx_argv = [], ctx_envp = [], ctx_auxv = aux_new, ctx_limit = l\<rparr>"

definition ctx_default :: process_context where
  "ctx_default = \<lparr>ctx_argv = [], ctx_envp = [], ctx_auxv = aux_new, ctx_limit = Unlimited\<rparr>"

definition extend_argv :: "string list \<Rightarrow> process_context \<Rightarrow> (unit, LoadError) outcome \<times> process_context" where
  "extend_argv argv c =
     (if length argv + length (ctx_argv c) > limit_argv (ctx_limit c) then (Err ArgumentCountExceeded, c)
      else (Ok (), c\<lparr>ctx_argv := ctx_argv c @ argv\<rparr>))"

definition extend_envp :: "string list \<Rightarrow> process_context \<Rightarrow> (unit, LoadError) outcome \<times> process_context" where
  "extend_envp envp c =
     (if length envp + length (ctx_envp c) > limit_envp (ctx_limit c) then (Err EnvironmentCountExceeded, c)
      else (Ok (), c\<lparr>ctx_envp := ctx_envp c @ envp\<rparr>))"

fun extend_auxv :: "aux_vec \<Rightarrow> bool \<Rightarrow> process_context \<Rightarrow> process_context" where
  "extend_auxv [] overwrite c = c"
| "extend_auxv ((key, val) # auxv) overwrite c =
     (if \<not> overwrite \<and> aux_get key (ctx_auxv c) \<noteq> None then extend_auxv auxv overwrite c
      else extend_auxv auxv overwrite (c\<lparr>ctx_auxv := aux_insert key val (ctx_auxv c)\<rparr>))"

definition merge :: "process_context \<Rightarrow> bool \<Rightarrow> process_context \<Rightarrow> (unit, LoadError) outcome \<times> process_context" where
  "merge other override_auxv c =
     sbind (extend_argv (ctx_argv other) c) (\<lambda>_ c.
     sbind (extend_envp (ctx_envp other) c) (\<lambda>_ c.
     (Ok (), extend_auxv (ctx_auxv other) override_auxv c)))"

section \<open>Script headers\<close>

definition byte_of :: "char \<Rightarrow> nat" where "byte_of c = of_char c"

definition is_cont :: "nat \<Rightarrow> bool" where "is_cont b = (0x80 \<le> b \<and> b \<le> 0xBF)"

text \<open>\<^verbatim>\<open>core::str::from_utf8\<close>: the well-formed byte sequences.\<close>

fun utf8_valid :: "nat list \<Rightarrow> bool" where
  "utf8_valid [] = True"
| "utf8_valid (a # bs) =
     (if a < 0x80 then utf8_valid bs
      else (case bs of
          [] \<Rightarrow> False
        | b # cs \<Rightarrow>
            if 0xC2 \<le> a \<and> a \<le> 0xDF then is_cont b \<and> utf8_valid cs
            else (case cs of
                [] \<Rightarrow> False
              | c # ds \<Rightarrow>
                  if 0xE0 \<le> a \<and> a \<le> 0xEF
                  then is_cont b \<and> is_cont c \<and> (a = 0xE0 \<longrightarrow> 0xA0 \<le> b) \<and> (a = 0xED \<longrightarrow> b \<le> 0x9F)
                       \<and> utf8_valid ds
                  else (case ds of
                      [] \<Rightarrow> False
                    | d # es \<Rightarrow>
                        0xF0 \<le> a \<and> a \<le> 0xF4 \<and> is_cont b \<and> is_cont c \<and> is_cont d
                        \<and> (a = 0xF0 \<longrightarrow> 0x90 \<le> b) \<and> (a = 0xF4 \<longrightarrow> b \<le> 0x8F) \<and> utf8_valid es))))"

definition from_utf8 :: "string \<Rightarrow> string option" where
  "from_utf8 s = (if utf8_valid (map byte_of s) then Some s else None)"

definition is_whitespace :: "char \<Rightarrow> bool" where
  "is_whitespace c = (c = CHR '' '' \<or> 9 \<le> byte_of c \<and> byte_of c \<le> 13)"

definition trim :: "string \<Rightarrow> string" where
  "trim s = rev (dropWhile is_whitespace (rev (dropWhile is_whitespace s)))"

fun split_on :: "char \<Rightarrow> string \<Rightarrow> string list" where
  "split_on d [] = [[]]"
| "split_on d (c # cs) =
     (if c = d then [] # split_on d cs
      else (case split_on d cs of [] \<Rightarrow> [[c]] | p # ps \<Rightarrow> (c # p) # ps))"

definition is_end :: "char \<Rightarrow> bool" where
  "is_end c = (byte_of c = 10 \<or> byte_of c = 13 \<or> byte_of c = 0)"

definition split_file_arg :: "string \<Rightarrow> (string \<times> string list, LoadError) outcome" where
  "split_file_arg content =
     (let file = takeWhile (\<lambda>b. b \<noteq> CHR '' '') content;
          args = drop 1 (dropWhile (\<lambda>b. b \<noteq> CHR '' '') content)
      in case (from_utf8 file, from_utf8 args) of
           (Some file, Some args) \<Rightarrow>
             Ok (trim file, dropWhile (\<lambda>s. s = []) (split_on (CHR '' '') (trim args)))
         | _ \<Rightarrow> Err InvalidShebangString)"

definition parse_header :: "string \<Rightarrow> (string \<times> string list, LoadError) outcome" where
  "parse_header header =
     (if length header < 2 \<or> take 2 header \<noteq> ''#!'' then Err NotShebang
      else split_file_arg (drop 2 (takeWhile (\<lambda>c. \<not> is_end c) header)))"

text \<open>The vector is extended and rotated by the length of what was added, which puts that in front.\<close>

definition push_ctx :: "string \<Rightarrow> string list \<Rightarrow> string \<Rightarrow> process_context \<Rightarrow> process_context" where
  "push_ctx file argv script c =
     (let to_insert = [file] @ argv @ [script];
          extended = ctx_argv c @ to_insert
      in c\<lparr>ctx_argv := rotate (length extended - length to_insert) extended,
           ctx_auxv := aux_insert AT_NOTELF 1 (ctx_auxv c)\<rparr>)"

definition SHEBANG_MAX_LEN :: nat where "SHEBANG_MAX_LEN = 127"

text \<open>Reading a byte slice: the bytes that were copied.\<close>

definition slice_read_at :: "u8 list \<Rightarrow> nat \<Rightarrow> nat \<Rightarrow> u8 list" where
  "slice_read_at data offset buf_len =
     (if offset \<ge> length data then []
      else let e = min (length data) (offset + buf_len) in take (e - offset) (drop offset data))"

section \<open>Lemmas\<close>

lemma aux_get_insert: "aux_get k (aux_insert k' v m) = (if k = k' then Some v else aux_get k m)"
  by (induction m) auto

lemma extend_auxv_fields [simp]:
  "ctx_argv (extend_auxv a ov c) = ctx_argv c" "ctx_envp (extend_auxv a ov c) = ctx_envp c"
  "ctx_limit (extend_auxv a ov c) = ctx_limit c"
  by (induction a ov c rule: extend_auxv.induct) simp_all

lemma extend_auxv_keeps:
  "aux_get k (ctx_auxv x) = Some v \<Longrightarrow> aux_get k (ctx_auxv (extend_auxv a False x)) = Some v"
proof (induction a arbitrary: x)
  case (Cons e a)
  obtain key val where e: "e = (key, val)" by (cases e)
  show ?case
  proof (cases "aux_get key (ctx_auxv x)")
    case None
    then have "k \<noteq> key" using Cons.prems by auto
    then show ?thesis
      using Cons.IH [of "x\<lparr>ctx_auxv := aux_insert key val (ctx_auxv x)\<rparr>"] Cons.prems None e
      by (simp add: aux_get_insert)
  qed (use Cons e in simp)
qed simp

lemma utf8_ascii: "\<forall>c\<in>set s. byte_of c < 128 \<Longrightarrow> utf8_valid (map byte_of s)"
  by (induction s) simp_all

lemma split_on_word: "d \<notin> set w \<Longrightarrow> split_on d w = [w]"
  by (induction w) auto

lemma split_on_append: "d \<notin> set w \<Longrightarrow> split_on d (w @ d # r) = w # split_on d r"
  by (induction w) auto

definition word :: "string \<Rightarrow> bool" where
  "word w \<longleftrightarrow> w \<noteq> [] \<and> (\<forall>c\<in>set w. 32 < byte_of c \<and> byte_of c < 128)"

fun unwords :: "string list \<Rightarrow> string" where
  "unwords [] = []"
| "unwords (w # ws) = w @ (if ws = [] then [] else CHR '' '' # unwords ws)"

lemma word_chars: "word w \<Longrightarrow> c \<in> set w \<Longrightarrow> c \<noteq> CHR '' '' \<and> \<not> is_whitespace c \<and> \<not> is_end c \<and> byte_of c < 128"
  by (auto simp: word_def is_whitespace_def is_end_def byte_of_def)

lemma split_unwords: "ws \<noteq> [] \<Longrightarrow> \<forall>w\<in>set ws. word w \<Longrightarrow> split_on (CHR '' '') (unwords ws) = ws"
proof (induction ws)
  case (Cons w ws)
  have "CHR '' '' \<notin> set w" using Cons.prems word_chars [of w "CHR '' ''"] by auto
  then show ?case using Cons by (cases "ws = []") (simp_all add: split_on_word split_on_append)
qed simp

lemma dropWhile_hd: "s \<noteq> [] \<Longrightarrow> \<not> p (hd s) \<Longrightarrow> dropWhile p s = s"
  by (cases s) auto

lemma trim_id: "s \<noteq> [] \<Longrightarrow> \<not> is_whitespace (hd s) \<Longrightarrow> \<not> is_whitespace (last s) \<Longrightarrow> trim s = s"
  by (simp add: trim_def dropWhile_hd hd_rev)

lemma unwords_ends:
  assumes "ws \<noteq> []" "\<forall>w\<in>set ws. word w"
  shows "unwords ws \<noteq> [] \<and> \<not> is_whitespace (hd (unwords ws)) \<and> \<not> is_whitespace (last (unwords ws))"
  using assms
proof (induction ws)
  case (Cons w ws)
  have w: "w \<noteq> []" "\<not> is_whitespace (hd w)" "\<not> is_whitespace (last w)"
    using Cons.prems word_chars [of w "hd w"] word_chars [of w "last w"] by (auto simp: word_def)
  then show ?case using Cons by (cases "ws = []") simp_all
qed simp

lemma unwords_chars: "\<forall>w\<in>set ws. word w \<Longrightarrow> c \<in> set (unwords ws) \<Longrightarrow> \<not> is_end c \<and> byte_of c < 128"
  by (induction ws) (auto split: if_splits dest: word_chars simp: is_end_def byte_of_def)

section \<open>Properties\<close>

text \<open>C31: a script header is parsed into what it spells: the interpreter, and the words behind it, up to
  the end of the line.\<close>

theorem parse_header_roundtrip:
  assumes "word file" and "args \<noteq> []" and "\<forall>a\<in>set args. word a" and "is_end e"
  shows "parse_header (''#!'' @ file @ '' '' @ unwords args @ e # rest) = Ok (file, args)"
proof -
  let ?line = "file @ CHR '' '' # unwords args"
  have ne: "\<not> is_end c" if "c \<in> set ?line" for c
    using that word_chars [OF assms(1), of c] unwords_chars [OF assms(3), of c] by (auto simp: is_end_def byte_of_def)
  have "takeWhile (\<lambda>c. \<not> is_end c) (''#!'' @ ?line @ e # rest) = ''#!'' @ ?line"
    using ne assms(4) by (simp add: is_end_def [of "CHR ''#''"] is_end_def [of "CHR ''!''"] byte_of_def)
  then have content: "drop 2 (takeWhile (\<lambda>c. \<not> is_end c) (''#!'' @ file @ '' '' @ unwords args @ e # rest)) = ?line"
    by simp
  have sp: "\<forall>c\<in>set file. c \<noteq> CHR '' ''" using word_chars [OF assms(1)] by blast
  have f: "takeWhile (\<lambda>b. b \<noteq> CHR '' '') ?line = file" "drop 1 (dropWhile (\<lambda>b. b \<noteq> CHR '' '') ?line) = unwords args"
    using sp by (auto simp: takeWhile_append2 dropWhile_append2)
  have u: "from_utf8 file = Some file" "from_utf8 (unwords args) = Some (unwords args)"
    using word_chars [OF assms(1)] unwords_chars [OF assms(3)] by (simp_all add: from_utf8_def utf8_ascii)
  have t: "trim file = file" "trim (unwords args) = unwords args"
    using assms(1) word_chars [OF assms(1)] unwords_ends [OF assms(2,3)] by (auto intro!: trim_id simp: word_def)
  have d: "dropWhile (\<lambda>s. s = []) args = args"
    using assms(2,3) by (intro dropWhile_hd) (auto simp: word_def)
  show ?thesis
    unfolding parse_header_def content split_file_arg_def Let_def f
    by (simp add: u t split_unwords [OF assms(2,3)] d)
qed

theorem parse_header_roundtrip_witness:
  "parse_header (''#!/bin/env python -u'' @ [CHR 0x0A] @ ''print'') = Ok (''/bin/env'', [''python'', ''-u''])"
  using parse_header_roundtrip [of "''/bin/env''" "[''python'', ''-u'']" "CHR 0x0A" "''print''"]
  by (simp add: word_def is_end_def byte_of_def)



text \<open>A blank between the mark and the interpreter, which other systems allow, gives the empty
  interpreter: the line is split at its first blank before it is trimmed.\<close>

theorem parse_header_leading_blank:
  "parse_header (''#! /bin/sh'' @ [CHR 0x0A]) = Ok ([], [''/bin/sh''])"
  by code_simp

end
