(* ===== verification/Spec2Isabelle.thy ===== *)
theory Spec2Isabelle
  imports Memory_Space Sys_Mmap Fs_Store Fs_File Loader
begin

text \<open>
  \<^bold>\<open>A verification library for the BakaOS kernel libraries.\<close>

  \<^bold>\<open>The program.\<close> BakaOS is a kernel for RISC-V and LoongArch written as a set of Rust crates under
  src/. Its memory side is a tower: addresses and page numbers (libraries/address) are handed out as
  frames by the frame allocator (libraries/allocation); the native page table (libraries/mmu-native)
  writes frames and permissions into entries, whose bit layout depends on the architecture, and
  translates, reads and writes user memory; an address space (libraries/memory-space) groups pages
  into areas that own their frames; the system call \<^verbatim>\<open>mmap\<close> (linux-syscalls) picks a hole between the
  areas and maps it. Beside it stand the virtual file system (libraries/filesystem-abstractions, over
  the path and time libraries) and the time library itself (libraries/timing).

  \<^bold>\<open>The theories\<close>, each on the ones above it:
  \<^item> \<^verbatim>\<open>Prelude\<close>: machine types, checked arithmetic, outcomes. A panic is the value \<^verbatim>\<open>None\<close> of an option
    or \<^verbatim>\<open>Panic\<close> of an \<^verbatim>\<open>outcome\<close>; \<^verbatim>\<open>sbind\<close> sequences operations that keep their state when they fail.
  \<^item> \<^verbatim>\<open>Address\<close> (libraries/address, libraries/abstractions): addresses and page numbers as 64-bit words
    with checked operators, alignment, ranges and their iterators. An aligned address is moved up a
    whole step by \<^verbatim>\<open>align_up\<close>; range intersection and page iteration are exact.
  \<^item> \<^verbatim>\<open>Frame_Allocator\<close> (libraries/allocation): \<^verbatim>\<open>FrameAllocator\<close> as a record with its invariant
    \<^verbatim>\<open>fa_inv\<close>; allocation is sound and complete, deallocation accepts exactly allocated frames, and the
    bulk operations are characterised. It provides the locale \<^verbatim>\<open>frame_allocation\<close>.
  \<^item> \<^verbatim>\<open>Pte\<close> (mmu-native, platform parts): the page table entries of rv64 and la64 on the bits of a
    word, with the locale \<^verbatim>\<open>page_table_entry\<close> of the laws the walk uses, interpreted for both.
  \<^item> \<^verbatim>\<open>Page_Table\<close> (libraries/mmu-native): the table in physical memory, a store from addresses to
    words; walking, creating levels, mapping, remapping, unmapping, querying, allocation and drop. The
    locale \<^verbatim>\<open>paging\<close> joins entries and frames; its invariant says that the tables form a tree of
    distinct frames. Sv39 and LA64 are its interpretations.
  \<^item> \<^verbatim>\<open>Page_Access\<close>: the loops that inspect, read and write user memory page by page, with a
    termination proof, and \<^verbatim>\<open>map_cross\<close>. Reads return and writes change exactly the translated bytes.
  \<^item> \<^verbatim>\<open>Page_Progress\<close>: when mapping must succeed: a page whose path through the tables is open is
    mapped unless no frame is left, and stays open for the others.
  \<^item> \<^verbatim>\<open>Memory_Space\<close> (libraries/memory-space): areas, break, trampoline, cloning, over records of
    functions for the trait objects \<^verbatim>\<open>IMMU\<close> and \<^verbatim>\<open>IFrameAllocator\<close>. The locale \<^verbatim>\<open>address_space\<close> states
    what an address space asks of them; the native page table and allocator are its interpretations.
  \<^item> \<^verbatim>\<open>Sys_Mmap\<close> (linux-syscalls/src/sys_mmap.rs): the checks, the search for a hole and the mapping of
    anonymous memory. The search refines one over page numbers; one page lands where no area is.
  \<^item> \<^verbatim>\<open>Errno\<close>, \<^verbatim>\<open>Timing\<close>, \<^verbatim>\<open>Path\<close> (libraries/constants, timing, path): error codes; times as
    integers with the 64-bit range written out, refining arithmetic on nanoseconds; path functions on
    strings, with dot segments refining a resolution of segment lists.
  \<^item> \<^verbatim>\<open>Fs_Tree\<close>, \<^verbatim>\<open>Fs_File\<close> (libraries/filesystem-abstractions): directory nodes in an explicit store
    with aliasing, over an arbitrary implementation of the inode trait; mounting, shadowing, opening,
    links, directory operations; open files and descriptor tables. \<^verbatim>\<open>Fs_Store\<close> shows that every
    operation of the tree keeps the store of nodes in order.
  \<^item> \<^verbatim>\<open>Loader\<close> (libraries/linux-loader): arguments, environment and auxiliary vector with their limits,
    and script headers, which are parsed into what they spell.

  \<^bold>\<open>Bounds and fuel.\<close> Loops end by structural recursion or a proved measure. Opening a path, opening a
  child and resolving a link call each other without a bound in the source: their model counts the
  depth of the call stack and overflows when it is used up. The theorem on links that pass through
  themselves holds for every depth, and the positive results on opening name the small depth that
  suffices. The chain of parents of a node is cut at the number of the node, which
  bounds it because a node is created after its parent.

  \<^bold>\<open>Parameters.\<close> Inodes and file systems are trait objects of other crates and appear as records of
  functions; the clock is an argument; fresh uninitialised memory is an argument. The theorems on the
  native page table assume zeroed frames and the alignment that booting establishes; every such
  hypothesis is met by the booted machine of \<^verbatim>\<open>Page_Table\<close>, which the witnesses run.

  \<^bold>\<open>Not modelled.\<close> Floating point results of the time library. Spin locks and atomics: the operations
  are sequential, and a lock taken twice by one call is outside the model. Log output. Assembly, boot,
  trap entry, context switch, console and SBI calls (kernel, platform-abstractions, platform-specific,
  trap-abstractions), since their meaning is that of the machine. The async executor and unwinding,
  which are driven by compiler generated code. The second generation of addresses (address-v2),
  not yet used by the modelled code. ELF images, which an external crate parses, and the memory
  streams of raw pointers. The remaining system calls and the tasks, which are handles of the executor.
  Build scripts, source generators and test utilities.
\<close>

end
